theory Spec2Isabelle
  imports Main "HOL-Library.Stream" "HOL-Library.Monad_Syntax"
begin

section \<open>Python values and the built-ins the source calls\<close>

text \<open>
  The validators of \<^verbatim>\<open>filter_plugins/validation.py\<close> receive whatever value the
  templating engine holds: a YAML scalar (string, integer, float, boolean, null) or a
  YAML sequence or mapping. A float is either one of the three special values or a finite
  dyadic rational \<open>m * 2 ^ e\<close>, which covers every finite IEEE double exactly.
  A string is a list of 8-bit characters, each standing for the code point of the same
  number: the model covers the strings whose code points are below 256.
\<close>

datatype pyfloat = Finite int int | PosInf | NegInf | NaN

datatype pyval =
    PyNone
  | PyBool bool
  | PyInt int
  | PyFloat pyfloat
  | PyStr string
  | PyList "pyval list"
  | PyDict "(pyval \<times> pyval) list"

text \<open>The exceptions the built-in \<^verbatim>\<open>int()\<close> can raise; \<open>Inl\<close> of a sum is a raise.\<close>

datatype exn = ValueError | TypeError | OverflowError

definition code_of :: "char \<Rightarrow> nat" where
  "code_of c = of_char c"

definition in_range :: "char \<Rightarrow> char \<Rightarrow> char \<Rightarrow> bool" where
  "in_range lo hi c = (code_of lo \<le> code_of c \<and> code_of c \<le> code_of hi)"

definition is_digit :: "char \<Rightarrow> bool" where
  "is_digit c = in_range CHR ''0'' CHR ''9'' c"

definition digit_val :: "char \<Rightarrow> int" where
  "digit_val c = int (code_of c) - 48"

text \<open>
  \<^verbatim>\<open>int(x)\<close> on a float truncates towards zero; infinities raise OverflowError and
  NaN raises ValueError.
\<close>

definition float_trunc :: "int \<Rightarrow> int \<Rightarrow> int" where
  "float_trunc m e =
     (if 0 \<le> e then m * 2 ^ nat e
      else if 0 \<le> m then m div 2 ^ nat (- e)
      else - ((- m) div 2 ^ nat (- e)))"

text \<open>
  \<^verbatim>\<open>int(s)\<close> on a string, base 10: optional surrounding whitespace (tab, LF, VT,
  FF, CR, space, and the non-ASCII NEL and NBSP), an optional sign, then decimal digits
  in which single underscores may separate digits. Anything else raises ValueError, and
  so does a string of more than 4300 digits (leading zeros count, underscores do not): the
  interpreter's default limit on conversions between strings and integers, which
  \<^verbatim>\<open>str()\<close> of an integer obeys as well.
\<close>

definition int_max_str_digits :: nat where
  "int_max_str_digits = 4300"

definition int_space :: "char \<Rightarrow> bool" where
  "int_space c = (in_range (CHR 0x09) (CHR 0x0D) c \<or> c = CHR '' ''
                  \<or> c = CHR 0x85 \<or> c = CHR 0xA0)"

text \<open>\<open>scan_digits\<close> returns the value read, the number of digits read and the rest.\<close>

fun scan_digits :: "int \<Rightarrow> nat \<Rightarrow> string \<Rightarrow> int \<times> nat \<times> string" where
  "scan_digits acc k [] = (acc, k, [])"
| "scan_digits acc k (c # cs) =
     (if is_digit c then scan_digits (10 * acc + digit_val c) (k + 1) cs
      else if c = CHR ''_'' \<and> (case cs of [] \<Rightarrow> False | d # _ \<Rightarrow> is_digit d)
        then scan_digits acc k cs
      else (acc, k, c # cs))"

definition int_of_digits :: "bool \<Rightarrow> string \<Rightarrow> exn + int" where
  "int_of_digits neg s =
     (case s of
        [] \<Rightarrow> Inl ValueError
      | c # _ \<Rightarrow>
          if \<not> is_digit c then Inl ValueError
          else (case scan_digits 0 0 s of
                  (n, k, rest) \<Rightarrow>
                    if dropWhile int_space rest \<noteq> [] then Inl ValueError
                    else if int_max_str_digits < k then Inl ValueError
                    else Inr (if neg then - n else n)))"

definition int_of_str :: "string \<Rightarrow> exn + int" where
  "int_of_str s =
     (case dropWhile int_space s of
        [] \<Rightarrow> Inl ValueError
      | c # cs \<Rightarrow>
          if c = CHR ''+'' then int_of_digits False cs
          else if c = CHR ''-'' then int_of_digits True cs
          else int_of_digits False (c # cs))"

fun py_int :: "pyval \<Rightarrow> exn + int" where
  "py_int PyNone = Inl TypeError"
| "py_int (PyBool b) = Inr (if b then 1 else 0)"
| "py_int (PyInt n) = Inr n"
| "py_int (PyFloat (Finite m e)) = Inr (float_trunc m e)"
| "py_int (PyFloat PosInf) = Inl OverflowError"
| "py_int (PyFloat NegInf) = Inl OverflowError"
| "py_int (PyFloat NaN) = Inl ValueError"
| "py_int (PyStr s) = int_of_str s"
| "py_int (PyList _) = Inl TypeError"
| "py_int (PyDict _) = Inl TypeError"

section \<open>The validator registry\<close>

subsection \<open>validate_port\<close>

definition reserved_ports :: "int list" where
  "reserved_ports = [22, 25, 53, 80, 110, 143, 443, 993, 995]"

text \<open>
  The \<^verbatim>\<open>try\<close> block catches ValueError and TypeError only; any other exception of
  the coercion leaves the function.
\<close>

definition validate_port :: "pyval \<Rightarrow> exn + bool" where
  "validate_port port =
     (case py_int port of
        Inl e \<Rightarrow> if e = ValueError \<or> e = TypeError then Inr False else Inl e
      | Inr port_int \<Rightarrow>
          if port_int < 1 \<or> port_int > 65535 then Inr False
          else if port_int \<in> set reserved_ports \<and> port_int \<notin> set [80, 443]
            then Inr False
          else Inr True)"

subsection \<open>Regular expressions as the \<^verbatim>\<open>re\<close> module reads them\<close>

text \<open>
  The patterns of the source use character classes, concatenation, the repetitions
  \<^verbatim>\<open>*\<close>, \<^verbatim>\<open>+\<close>, \<^verbatim>\<open>?\<close>, \<^verbatim>\<open>{m,n}\<close>, \<^verbatim>\<open>{m,}\<close> and the anchors
  \<^verbatim>\<open>^\<close> and \<^verbatim>\<open>$\<close>. \<open>Rep lo hi r\<close> is \<open>r\<close> repeated at least \<open>lo\<close> and, when
  \<open>hi = Some n\<close>, at most \<open>n\<close> times. \<open>Alt\<close>, \<open>Eps\<close> and \<open>Nul\<close> arise as residuals.
\<close>

datatype rx =
    Bol
  | Eol
  | Sym "char \<Rightarrow> bool"
  | Seq rx rx
  | Rep nat "nat option" rx
  | Alt rx rx
  | Eps
  | Nul

abbreviation Star :: "rx \<Rightarrow> rx" where "Star r \<equiv> Rep 0 None r"
abbreviation Plus :: "rx \<Rightarrow> rx" where "Plus r \<equiv> Rep 1 None r"
abbreviation Opt :: "rx \<Rightarrow> rx" where "Opt r \<equiv> Rep 0 (Some 1) r"

fun seqs :: "rx list \<Rightarrow> rx" where
  "seqs [] = Eps"
| "seqs [r] = r"
| "seqs (r # rs) = Seq r (seqs rs)"

definition ch :: "char \<Rightarrow> rx" where
  "ch c = Sym (\<lambda>x. x = c)"

definition lit :: "string \<Rightarrow> rx" where
  "lit s = seqs (map ch s)"

text \<open>
  Without flags, \<^verbatim>\<open>^\<close> holds at the start of the string only, and \<^verbatim>\<open>$\<close> holds at
  the end of the string and also just before a newline that is the last character.
  \<open>nullable b s r\<close>: \<open>r\<close> matches the empty word at a position that is the start of
  the string iff \<open>b\<close> and has \<open>s\<close> left to read.
\<close>

fun nullable :: "bool \<Rightarrow> string \<Rightarrow> rx \<Rightarrow> bool" where
  "nullable b s Bol = b"
| "nullable b s Eol = (s = [] \<or> s = [CHR 0x0A])"
| "nullable b s (Sym p) = False"
| "nullable b s (Seq r1 r2) = (nullable b s r1 \<and> nullable b s r2)"
| "nullable b s (Rep lo hi r) = (lo = 0 \<or> nullable b s r)"
| "nullable b s (Alt r1 r2) = (nullable b s r1 \<or> nullable b s r2)"
| "nullable b s Eps = True"
| "nullable b s Nul = False"

text \<open>The residual of \<open>r\<close> after reading \<open>c\<close> at a position with \<open>c # cs\<close> left.\<close>

fun deriv :: "bool \<Rightarrow> char \<Rightarrow> string \<Rightarrow> rx \<Rightarrow> rx" where
  "deriv b c cs Bol = Nul"
| "deriv b c cs Eol = Nul"
| "deriv b c cs (Sym p) = (if p c then Eps else Nul)"
| "deriv b c cs (Seq r1 r2) =
     Alt (Seq (deriv b c cs r1) r2)
         (if nullable b (c # cs) r1 then deriv b c cs r2 else Nul)"
| "deriv b c cs (Rep lo hi r) =
     (if hi = Some 0 then Nul
      else Seq (deriv b c cs r) (Rep (lo - 1) (map_option (\<lambda>h. h - 1) hi) r))"
| "deriv b c cs (Alt r1 r2) = Alt (deriv b c cs r1) (deriv b c cs r2)"
| "deriv b c cs Eps = Nul"
| "deriv b c cs Nul = Nul"

text \<open>A match need not reach the end of the string: only \<^verbatim>\<open>$\<close> looks at what is left.\<close>

fun match_here :: "bool \<Rightarrow> rx \<Rightarrow> string \<Rightarrow> bool" where
  "match_here b r [] = nullable b [] r"
| "match_here b r (c # cs) =
     (nullable b (c # cs) r \<or> match_here False (deriv b c cs r) cs)"

definition re_match :: "rx \<Rightarrow> string \<Rightarrow> bool" where
  "re_match r s = match_here True r s"

fun search_from :: "bool \<Rightarrow> rx \<Rightarrow> string \<Rightarrow> bool" where
  "search_from b r [] = match_here b r []"
| "search_from b r (c # cs) = (match_here b r (c # cs) \<or> search_from False r cs)"

definition re_search :: "rx \<Rightarrow> string \<Rightarrow> bool" where
  "re_search r s = search_from True r s"

text \<open>Character classes. \<^verbatim>\<open>\s\<close>, \<^verbatim>\<open>\d\<close> and \<^verbatim>\<open>.\<close> are those of a string pattern.\<close>

definition one_of :: "string \<Rightarrow> char \<Rightarrow> bool" where
  "one_of s c = (c \<in> set s)"

definition lower :: "char \<Rightarrow> bool" where
  "lower c = in_range CHR ''a'' CHR ''z'' c"

definition upper :: "char \<Rightarrow> bool" where
  "upper c = in_range CHR ''A'' CHR ''Z'' c"

definition alnum :: "char \<Rightarrow> bool" where
  "alnum c = (lower c \<or> upper c \<or> is_digit c)"

definition py_isspace :: "char \<Rightarrow> bool" where
  "py_isspace c = (in_range (CHR 0x09) (CHR 0x0D) c \<or> in_range (CHR 0x1C) (CHR 0x1F) c
                   \<or> c = CHR '' '' \<or> c = CHR 0x85 \<or> c = CHR 0xA0)"

definition any_char :: "char \<Rightarrow> bool" where
  "any_char c = (c \<noteq> CHR 0x0A)"

subsection \<open>What a pattern matches\<close>

text \<open>
  The meaning of a pattern, as a relation: \<open>rx_sem r b s s'\<close> holds when \<open>r\<close>, at a
  position that is the start of the string iff \<open>b\<close> and has \<open>s\<close> left to read, can
  match and leave \<open>s'\<close>. The matcher above decides it for the patterns whose repeated
  parts always read a character (\<open>wf_rx\<close>), which holds of every pattern of the source.
\<close>

inductive rx_sem :: "rx \<Rightarrow> bool \<Rightarrow> string \<Rightarrow> string \<Rightarrow> bool" where
  sem_Bol: "rx_sem Bol True s s"
| sem_Eol: "s = [] \<or> s = [CHR 0x0A] \<Longrightarrow> rx_sem Eol b s s"
| sem_Sym: "p c \<Longrightarrow> rx_sem (Sym p) b (c # s) s"
| sem_Seq: "rx_sem r1 b s s' \<Longrightarrow> rx_sem r2 (b \<and> s' = s) s' s'' \<Longrightarrow> rx_sem (Seq r1 r2) b s s''"
| sem_Rep0: "rx_sem (Rep 0 hi r) b s s"
| sem_RepS: "hi \<noteq> Some 0 \<Longrightarrow> rx_sem r b s s' \<Longrightarrow>
             rx_sem (Rep (lo - 1) (map_option (\<lambda>h. h - 1) hi) r) (b \<and> s' = s) s' s'' \<Longrightarrow>
             rx_sem (Rep lo hi r) b s s''"
| sem_AltL: "rx_sem r1 b s s' \<Longrightarrow> rx_sem (Alt r1 r2) b s s'"
| sem_AltR: "rx_sem r2 b s s' \<Longrightarrow> rx_sem (Alt r1 r2) b s s'"
| sem_Eps: "rx_sem Eps b s s"

fun consuming :: "rx \<Rightarrow> bool" where
  "consuming Bol = False"
| "consuming Eol = False"
| "consuming (Sym p) = True"
| "consuming (Seq r1 r2) = (consuming r1 \<or> consuming r2)"
| "consuming (Rep lo hi r) = (0 < lo \<and> consuming r)"
| "consuming (Alt r1 r2) = (consuming r1 \<and> consuming r2)"
| "consuming Eps = False"
| "consuming Nul = True"

fun wf_rx :: "rx \<Rightarrow> bool" where
  "wf_rx (Seq r1 r2) = (wf_rx r1 \<and> wf_rx r2)"
| "wf_rx (Rep lo hi r) = (wf_rx r \<and> consuming r)"
| "wf_rx (Alt r1 r2) = (wf_rx r1 \<and> wf_rx r2)"
| "wf_rx r = True"

subsection \<open>The string validators\<close>

definition php_version_pattern :: rx where
  "php_version_pattern = seqs [Bol, Sym (one_of ''78''), ch CHR ''.'', Sym is_digit, Eol]"

definition validate_php_version :: "pyval \<Rightarrow> bool" where
  "validate_php_version version =
     (case version of
        PyStr s \<Rightarrow> re_match php_version_pattern s
      | _ \<Rightarrow> False)"

definition database_name_pattern :: rx where
  "database_name_pattern = seqs [Bol, Plus (Sym (\<lambda>c. alnum c \<or> c = CHR ''_'')), Eol]"

definition validate_database_name :: "pyval \<Rightarrow> bool" where
  "validate_database_name name =
     (case name of
        PyStr s \<Rightarrow>
          if length s = 0 then False
          else if length s > 64 then False
          else re_match database_name_pattern s
      | _ \<Rightarrow> False)"

definition label :: rx where
  "label = Seq (Sym alnum)
               (Opt (Seq (Rep 0 (Some 61) (Sym (\<lambda>c. alnum c \<or> c = CHR ''-''))) (Sym alnum)))"

definition domain_name_pattern :: rx where
  "domain_name_pattern = seqs [Bol, Star (Seq label (ch CHR ''.'')), label, Eol]"

definition validate_domain_name :: "pyval \<Rightarrow> bool" where
  "validate_domain_name domain =
     (case domain of
        PyStr s \<Rightarrow>
          if length s = 0 then False
          else if length s > 253 then False
          else re_match domain_name_pattern s
      | _ \<Rightarrow> False)"

definition host_start :: "char \<Rightarrow> bool" where
  "host_start c = (\<not> py_isspace c \<and> \<not> one_of ''/$.?#'' c)"

definition non_space :: "char \<Rightarrow> bool" where
  "non_space c = (\<not> py_isspace c)"

definition non_slash :: "char \<Rightarrow> bool" where
  "non_slash c = (c \<noteq> CHR ''/'')"

definition git_url_patterns :: "rx list" where
  "git_url_patterns =
     [seqs [Bol, lit ''http'', Opt (ch CHR ''s''), lit ''://'', Sym host_start, Sym any_char,
            Star (Sym non_space), lit ''.git'', Eol],
      seqs [Bol, lit ''git@'', Sym host_start, Sym any_char, Star (Sym non_space),
            ch CHR '':'', Star (Sym non_space), lit ''.git'', Eol],
      seqs [Bol, lit ''http'', Opt (ch CHR ''s''), lit ''://github.com/'',
            Plus (Sym non_slash), ch CHR ''/'', Plus (Sym non_slash), Opt (ch CHR ''/''), Eol],
      seqs [Bol, lit ''http'', Opt (ch CHR ''s''), lit ''://gitlab.com/'',
            Plus (Sym non_slash), ch CHR ''/'', Plus (Sym non_slash), Opt (ch CHR ''/''), Eol]]"

definition validate_git_url :: "pyval \<Rightarrow> bool" where
  "validate_git_url url =
     (case url of
        PyStr s \<Rightarrow>
          if length s = 0 then False
          else list_ex (\<lambda>pattern. re_match pattern s) git_url_patterns
      | _ \<Rightarrow> False)"

definition validate_password_strength :: "pyval \<Rightarrow> bool" where
  "validate_password_strength password =
     (case password of
        PyStr s \<Rightarrow>
          if length s < 8 then False
          else if \<not> re_search (Sym upper) s then False
          else if \<not> re_search (Sym lower) s then False
          else if \<not> re_search (Sym is_digit) s then False
          else True
      | _ \<Rightarrow> False)"

definition email_pattern :: rx where
  "email_pattern =
     seqs [Bol, Plus (Sym (\<lambda>c. alnum c \<or> one_of ''._%+-'' c)), ch CHR ''@'',
           Plus (Sym (\<lambda>c. alnum c \<or> one_of ''.-'' c)), ch CHR ''.'',
           Rep 2 None (Sym (\<lambda>c. lower c \<or> upper c)), Eol]"

definition validate_email :: "pyval \<Rightarrow> bool" where
  "validate_email email =
     (case email of
        PyStr s \<Rightarrow> re_match email_pattern s
      | _ \<Rightarrow> False)"

subsection \<open>The accept conditions of the spec, in its words\<close>

text \<open>
  A label is 1 to 63 characters long, starts and ends with an ASCII alphanumeric and
  holds only alphanumerics and hyphens; a domain name is a non-empty string of at most
  253 characters whose parts between dots are labels.
\<close>

fun split_on :: "char \<Rightarrow> string \<Rightarrow> string list" where
  "split_on d [] = [[]]"
| "split_on d (c # cs) =
     (if c = d then [] # split_on d cs
      else (case split_on d cs of [] \<Rightarrow> [[c]] | l # ls \<Rightarrow> (c # l) # ls))"

definition spec_label :: "string \<Rightarrow> bool" where
  "spec_label l = (1 \<le> length l \<and> length l \<le> 63 \<and> alnum (hd l) \<and> alnum (last l)
                   \<and> list_all (\<lambda>c. alnum c \<or> c = CHR ''-'') l)"

definition spec_domain :: "string \<Rightarrow> bool" where
  "spec_domain s = (s \<noteq> [] \<and> length s \<le> 253 \<and> list_all spec_label (split_on CHR ''.'' s))"

subsection \<open>sanitize_input\<close>

text \<open>
  \<^verbatim>\<open>str(x)\<close>: a string is itself; any other value is written as its \<^verbatim>\<open>repr\<close>. The
  digits of a finite float are given by the parameter \<open>float_repr\<close> (the shortest
  decimal string that reads back as the same double); nothing below depends on them beyond
  being some string. A mapping is given by its items in insertion order. Writing an integer
  of more than 4300 digits raises ValueError, also when the integer is inside a list or a
  mapping.
\<close>

definition digit_char :: "nat \<Rightarrow> char" where
  "digit_char n = ''0123456789'' ! n"

function dec_nat :: "nat \<Rightarrow> string" where
  "dec_nat n =
     (if n < 10 then [digit_char n]
      else dec_nat (n div 10) @ [digit_char (n mod 10)])"
  by pat_completeness auto
termination
  by (relation "measure id") auto

declare dec_nat.simps [simp del]

definition dec_int :: "int \<Rightarrow> string" where
  "dec_int i = (if i < 0 then CHR ''-'' # dec_nat (nat (- i)) else dec_nat (nat i))"

definition hex_digit :: "nat \<Rightarrow> char" where
  "hex_digit n = ''0123456789abcdef'' ! n"

definition printable :: "char \<Rightarrow> bool" where
  "printable c =
     (\<not> (code_of c < 32 \<or> code_of c = 127 \<or> (128 \<le> code_of c \<and> code_of c \<le> 160)
         \<or> code_of c = 173))"

definition str_quote :: "string \<Rightarrow> char" where
  "str_quote s = (if CHR 0x27 \<in> set s \<and> CHR 0x22 \<notin> set s then CHR 0x22 else CHR 0x27)"

definition repr_char :: "char \<Rightarrow> char \<Rightarrow> string" where
  "repr_char q c =
     (if c = q \<or> c = CHR 0x5C then [CHR 0x5C, c]
      else if c = CHR 0x09 then [CHR 0x5C, CHR ''t'']
      else if c = CHR 0x0A then [CHR 0x5C, CHR ''n'']
      else if c = CHR 0x0D then [CHR 0x5C, CHR ''r'']
      else if \<not> printable c
        then [CHR 0x5C, CHR ''x'', hex_digit (code_of c div 16), hex_digit (code_of c mod 16)]
      else [c])"

definition repr_str :: "string \<Rightarrow> string" where
  "repr_str s = (let q = str_quote s in q # concat (map (repr_char q) s) @ [q])"

fun join :: "string \<Rightarrow> string list \<Rightarrow> string" where
  "join sep [] = []"
| "join sep [x] = x"
| "join sep (x # xs) = x @ sep @ join sep xs"

definition int_str :: "int \<Rightarrow> exn + string" where
  "int_str n =
     (if int_max_str_digits < length (dec_nat (nat \<bar>n\<bar>)) then Inl ValueError
      else Inr (dec_int n))"

text \<open>The items of a container are written from left to right; the first error ends it.\<close>

fun collect :: "(exn + 'a) list \<Rightarrow> exn + 'a list" where
  "collect [] = Inr []"
| "collect (x # xs) =
     (case x of
        Inl e \<Rightarrow> Inl e
      | Inr v \<Rightarrow> (case collect xs of Inl e \<Rightarrow> Inl e | Inr vs \<Rightarrow> Inr (v # vs)))"

definition item_repr :: "exn + string \<Rightarrow> exn + string \<Rightarrow> exn + string" where
  "item_repr k v =
     (case k of
        Inl e \<Rightarrow> Inl e
      | Inr ks \<Rightarrow> (case v of Inl e \<Rightarrow> Inl e | Inr vs \<Rightarrow> Inr (ks @ '': '' @ vs)))"

fun py_repr :: "(int \<Rightarrow> int \<Rightarrow> string) \<Rightarrow> pyval \<Rightarrow> exn + string" where
  "py_repr float_repr PyNone = Inr ''None''"
| "py_repr float_repr (PyBool b) = Inr (if b then ''True'' else ''False'')"
| "py_repr float_repr (PyInt n) = int_str n"
| "py_repr float_repr (PyFloat (Finite m e)) = Inr (float_repr m e)"
| "py_repr float_repr (PyFloat PosInf) = Inr ''inf''"
| "py_repr float_repr (PyFloat NegInf) = Inr ''-inf''"
| "py_repr float_repr (PyFloat NaN) = Inr ''nan''"
| "py_repr float_repr (PyStr s) = Inr (repr_str s)"
| "py_repr float_repr (PyList xs) =
     map_sum id (\<lambda>rs. ''['' @ join '', '' rs @ '']'') (collect (map (py_repr float_repr) xs))"
| "py_repr float_repr (PyDict kvs) =
     map_sum id (\<lambda>rs. ''{'' @ join '', '' rs @ ''}'')
       (collect (map (\<lambda>kv. item_repr (py_repr float_repr (fst kv)) (py_repr float_repr (snd kv)))
                     kvs))"

definition py_str :: "(int \<Rightarrow> int \<Rightarrow> string) \<Rightarrow> pyval \<Rightarrow> exn + string" where
  "py_str float_repr v = (case v of PyStr s \<Rightarrow> Inr s | _ \<Rightarrow> py_repr float_repr v)"

text \<open>The values whose \<^verbatim>\<open>repr\<close> meets an integer of more than 4300 digits.\<close>

fun has_long_int :: "pyval \<Rightarrow> bool" where
  "has_long_int (PyInt n) = (int_max_str_digits < length (dec_nat (nat \<bar>n\<bar>)))"
| "has_long_int (PyList xs) = list_ex has_long_int xs"
| "has_long_int (PyDict kvs) =
     list_ex (\<lambda>kv. has_long_int (fst kv) \<or> has_long_int (snd kv)) kvs"
| "has_long_int _ = False"

text \<open>\<^verbatim>\<open>s.replace(char, '')\<close> for a one-character \<open>char\<close>, and \<^verbatim>\<open>s.strip()\<close>.\<close>

definition remove_char :: "char \<Rightarrow> string \<Rightarrow> string" where
  "remove_char c s = filter (\<lambda>x. x \<noteq> c) s"

definition strip :: "string \<Rightarrow> string" where
  "strip s = rev (dropWhile py_isspace (rev (dropWhile py_isspace s)))"

definition dangerous_chars :: "char list" where
  "dangerous_chars = [CHR 0x60, CHR ''$'', CHR ''|'', CHR ''&'', CHR '';'', CHR ''('', CHR '')'',
                      CHR ''{'', CHR ''}'', CHR ''<'', CHR ''>'']"

definition sanitize_input :: "(int \<Rightarrow> int \<Rightarrow> string) \<Rightarrow> pyval \<Rightarrow> exn + string" where
  "sanitize_input float_repr input_str =
     (case input_str of
        PyStr s \<Rightarrow> Inr (strip (fold remove_char dangerous_chars s))
      | _ \<Rightarrow> py_str float_repr input_str)"

subsection \<open>The registry\<close>

definition filters :: "(int \<Rightarrow> int \<Rightarrow> string) \<Rightarrow> (string \<times> (pyval \<Rightarrow> exn + pyval)) list" where
  "filters float_repr =
     [(''validate_php_version'', \<lambda>v. Inr (PyBool (validate_php_version v))),
      (''validate_database_name'', \<lambda>v. Inr (PyBool (validate_database_name v))),
      (''validate_domain_name'', \<lambda>v. Inr (PyBool (validate_domain_name v))),
      (''validate_port'', \<lambda>v. map_sum id PyBool (validate_port v)),
      (''validate_git_url'', \<lambda>v. Inr (PyBool (validate_git_url v))),
      (''validate_password_strength'', \<lambda>v. Inr (PyBool (validate_password_strength v))),
      (''sanitize_input'', \<lambda>v. map_sum id PyStr (sanitize_input float_repr v)),
      (''validate_email'', \<lambda>v. Inr (PyBool (validate_email v)))]"

section \<open>The secrets generator\<close>

subsection \<open>The random source and the library calls\<close>

text \<open>
  The operating system's random source is a stream of numbers; each call reads the next
  ones and leaves the rest. \<^verbatim>\<open>secrets.choice(seq)\<close> is \<^verbatim>\<open>seq[randbelow(len(seq))]\<close>; the
  source calls it on non-empty alphabets only.
\<close>

type_synonym rng = "nat stream"

definition randbelow :: "nat \<Rightarrow> rng \<Rightarrow> nat \<times> rng" where
  "randbelow n g = (shd g mod n, stl g)"

definition choice :: "'a list \<Rightarrow> rng \<Rightarrow> 'a \<times> rng" where
  "choice xs g = (case randbelow (length xs) g of (i, g') \<Rightarrow> (xs ! i, g'))"

text \<open>\<^verbatim>\<open>''.join(secrets.choice(characters) for _ in range(k))\<close>\<close>

fun choices :: "nat \<Rightarrow> 'a list \<Rightarrow> rng \<Rightarrow> 'a list \<times> rng" where
  "choices 0 xs g = ([], g)"
| "choices (Suc k) xs g =
     (case choice xs g of (c, g') \<Rightarrow>
        (case choices k xs g' of (cs, g'') \<Rightarrow> (c # cs, g'')))"

definition token_bytes :: "nat \<Rightarrow> rng \<Rightarrow> nat list \<times> rng" where
  "token_bytes n g = (map (\<lambda>x. x mod 256) (stake n g), sdrop n g)"

definition b64_alphabet :: string where
  "b64_alphabet = ''ABCDEFGHIJKLMNOPQRSTUVWXYZabcdefghijklmnopqrstuvwxyz0123456789-_''"

fun urlsafe_b64encode :: "nat list \<Rightarrow> string" where
  "urlsafe_b64encode (a # b # c # rest) =
     [b64_alphabet ! (a div 4), b64_alphabet ! ((a mod 4) * 16 + b div 16),
      b64_alphabet ! ((b mod 16) * 4 + c div 64), b64_alphabet ! (c mod 64)]
     @ urlsafe_b64encode rest"
| "urlsafe_b64encode [a, b] =
     [b64_alphabet ! (a div 4), b64_alphabet ! ((a mod 4) * 16 + b div 16),
      b64_alphabet ! ((b mod 16) * 4), CHR ''='']"
| "urlsafe_b64encode [a] =
     [b64_alphabet ! (a div 4), b64_alphabet ! ((a mod 4) * 16), CHR ''='', CHR ''='']"
| "urlsafe_b64encode [] = []"

definition rstrip_eq :: "string \<Rightarrow> string" where
  "rstrip_eq s = rev (dropWhile (\<lambda>c. c = CHR ''='') (rev s))"

definition token_urlsafe :: "nat \<Rightarrow> rng \<Rightarrow> string \<times> rng" where
  "token_urlsafe nbytes g =
     (case token_bytes nbytes g of (tok, g') \<Rightarrow> (rstrip_eq (urlsafe_b64encode tok), g'))"

definition ascii_letters :: string where
  "ascii_letters = ''abcdefghijklmnopqrstuvwxyzABCDEFGHIJKLMNOPQRSTUVWXYZ''"

definition digits :: string where
  "digits = ''0123456789''"

text \<open>
  \<^verbatim>\<open>crypt.mksalt(crypt.METHOD_SHA512)\<close>: the prefix \<^verbatim>\<open>$6$\<close> and 16 characters chosen
  from letters, digits, dot and slash. \<^verbatim>\<open>crypt.crypt\<close> itself belongs to the C library and
  is a parameter of the model: a function from the password and the salt to the hash.
\<close>

definition mksalt :: "rng \<Rightarrow> string \<times> rng" where
  "mksalt g =
     (case choices 16 (ascii_letters @ digits @ ''./'') g of
        (cs, g') \<Rightarrow> (''$6$'' @ cs, g'))"

subsection \<open>generate_password, generate_salt, hash_password\<close>

definition generate_password :: "int \<Rightarrow> pyval \<Rightarrow> rng \<Rightarrow> string \<times> rng" where
  "generate_password length' complexity g =
     (let characters =
            (if complexity = PyStr ''high'' then ascii_letters @ digits @ ''!@#$%^&*''
             else if complexity = PyStr ''medium'' then ascii_letters @ digits
             else ascii_letters @ digits)
      in choices (nat length') characters g)"

definition generate_salt :: "rng \<Rightarrow> string \<times> rng" where
  "generate_salt g = token_urlsafe 32 g"

definition hash_password ::
  "(string \<Rightarrow> string \<Rightarrow> string) \<Rightarrow> string \<Rightarrow> rng \<Rightarrow> string \<times> rng" where
  "hash_password crypt password g =
     (case mksalt g of (salt, g') \<Rightarrow> (crypt password salt, g'))"

subsection \<open>main\<close>

text \<open>
  \<open>main\<close> builds the dictionary \<open>passwords\<close> (an association list in insertion
  order), the hash, and the text \<open>vault_content\<close>; it writes the text to
  \<^verbatim>\<open>vault_template.yml\<close> when the operator answers \<^verbatim>\<open>y\<close>. What it prints to the
  console is left out. A dictionary lookup of a missing key raises KeyError: \<open>None\<close>.
\<close>

record secrets_bundle =
  passwords :: "(string \<times> string) list"
  adminer_hash :: string
  vault_content :: string
  saved_file :: "string option"

definition getitem :: "(string \<times> string) list \<Rightarrow> string \<Rightarrow> string option" where
  "getitem d k = map_of d k"

definition quoted :: "string \<Rightarrow> string" where
  "quoted s = [CHR 0x22] @ s @ [CHR 0x22]"

definition text_of_lines :: "string list \<Rightarrow> string" where
  "text_of_lines ls = concat (map (\<lambda>l. l @ [CHR 0x0A]) ls)"

definition vault_template :: "(string \<times> string) list \<Rightarrow> string \<Rightarrow> string option" where
  "vault_template pw hash =
     do {
       mysql_root \<leftarrow> getitem pw ''mysql_root'';
       postgres \<leftarrow> getitem pw ''postgres'';
       adminer \<leftarrow> getitem pw ''adminer'';
       laravel_db \<leftarrow> getitem pw ''laravel_db'';
       app_key \<leftarrow> getitem pw ''app_key'';
       jwt_secret \<leftarrow> getitem pw ''jwt_secret'';
       backup_key \<leftarrow> getitem pw ''backup_key'';
       db_user_password \<leftarrow> getitem pw ''laravel_db'';
       Some (text_of_lines
         [''---'',
          ''# Encrypted vault file - create with: ansible-vault create group_vars/vault.yml'',
          [],
          ''vault_mysql_root_password: '' @ quoted mysql_root,
          ''vault_postgres_password: '' @ quoted postgres,
          ''vault_adminer_password: '' @ quoted adminer,
          ''vault_adminer_password_hash: '' @ quoted hash,
          ''vault_laravel_db_password: '' @ quoted laravel_db,
          ''vault_app_key: '' @ quoted app_key,
          ''vault_jwt_secret: '' @ quoted jwt_secret,
          ''vault_backup_encryption_key: '' @ quoted backup_key,
          [],
          ''vault_adminer_user: '' @ quoted ''dbadmin'',
          [],
          ''vault_db_users:'',
          ''  - name: '' @ quoted ''laravel_user'',
          ''    password: '' @ quoted db_user_password,
          ''    privileges: '' @ quoted ''SELECT,INSERT,UPDATE,DELETE,CREATE,ALTER,INDEX,DROP''])
     }"

definition lower_char :: "char \<Rightarrow> char" where
  "lower_char c =
     (if upper c \<or> (in_range (CHR 0xC0) (CHR 0xDE) c \<and> c \<noteq> CHR 0xD7)
      then char_of (code_of c + 32) else c)"

definition main :: "(string \<Rightarrow> string \<Rightarrow> string) \<Rightarrow> rng \<Rightarrow> string \<Rightarrow> secrets_bundle option" where
  "main crypt g0 answer =
     (case generate_password 20 (PyStr ''high'') g0 of (mysql_root, g1) \<Rightarrow>
      case generate_password 20 (PyStr ''high'') g1 of (postgres, g2) \<Rightarrow>
      case generate_password 16 (PyStr ''medium'') g2 of (adminer, g3) \<Rightarrow>
      case generate_password 16 (PyStr ''medium'') g3 of (laravel_db, g4) \<Rightarrow>
      case token_urlsafe 32 g4 of (app_token, g5) \<Rightarrow>
      case token_urlsafe 64 g5 of (jwt_secret, g6) \<Rightarrow>
      case token_urlsafe 32 g6 of (backup_key, g7) \<Rightarrow>
      let pw = [(''mysql_root'', mysql_root), (''postgres'', postgres),
                (''adminer'', adminer), (''laravel_db'', laravel_db),
                (''app_key'', ''base64:'' @ app_token), (''jwt_secret'', jwt_secret),
                (''backup_key'', backup_key)]
      in do {
        adminer_pw \<leftarrow> getitem pw ''adminer'';
        content \<leftarrow> vault_template pw (fst (hash_password crypt adminer_pw g7));
        Some \<lparr> passwords = pw,
               adminer_hash = fst (hash_password crypt adminer_pw g7),
               vault_content = content,
               saved_file = (if map lower_char answer = ''y'' then Some content else None) \<rparr>
      })"

subsection \<open>Reading the rendered document\<close>

text \<open>
  The claims about the rendered text speak of the value a key has in it. The text is read
  line by line; a line gives a key its value when, after indentation and the dash of a
  list item, it is the key, a colon, a space and the value in double quotes.
\<close>

fun lines_of :: "string \<Rightarrow> string list" where
  "lines_of [] = []"
| "lines_of (c # cs) =
     (if c = CHR 0x0A then [] # lines_of cs
      else (case lines_of cs of [] \<Rightarrow> [[c]] | l # ls \<Rightarrow> (c # l) # ls))"

fun after_prefix :: "string \<Rightarrow> string \<Rightarrow> string option" where
  "after_prefix [] s = Some s"
| "after_prefix (p # ps) [] = None"
| "after_prefix (p # ps) (c # cs) = (if p = c then after_prefix ps cs else None)"

definition field_value :: "string \<Rightarrow> string \<Rightarrow> string option" where
  "field_value key line =
     (case after_prefix (key @ '': '' @ [CHR 0x22])
             (dropWhile (\<lambda>c. c = CHR '' '' \<or> c = CHR ''-'') line) of
        None \<Rightarrow> None
      | Some rest \<Rightarrow>
          if rest \<noteq> [] \<and> last rest = CHR 0x22 then Some (butlast rest) else None)"

definition doc_values :: "string \<Rightarrow> string \<Rightarrow> string list" where
  "doc_values key doc = List.map_filter (field_value key) (lines_of doc)"

section \<open>Properties of the validator registry\<close>

lemmas port_defs = validate_port_def reserved_ports_def float_trunc_def

text \<open>
  What \<open>validate_port\<close> accepts: exactly the values that \<^verbatim>\<open>int()\<close> turns into a
  port between 1 and 65535 that is not reserved, 80 and 443 being exempt.
\<close>

lemma validate_port_accepts_iff:
  "validate_port v = Inr True \<longleftrightarrow>
     (\<exists>n. py_int v = Inr n \<and> 1 \<le> n \<and> n \<le> 65535
          \<and> (n \<notin> set reserved_ports \<or> n = 80 \<or> n = 443))"
  by (cases "py_int v") (auto simp: validate_port_def)

lemma validate_port_after_coercion:
  "py_int v = Inr n \<Longrightarrow> validate_port v = validate_port (PyInt n)"
  by (simp add: validate_port_def)

text \<open>
  A string of more than 4300 digits is not coercible, whatever number it writes: the port
  is rejected.
\<close>

lemma int_of_str_error: "int_of_str s = Inl e \<Longrightarrow> e = ValueError"
  by (auto simp: int_of_str_def int_of_digits_def split: list.splits if_splits prod.splits)

lemma scan_digits_all:
  "list_all is_digit ds \<Longrightarrow> snd (scan_digits acc k ds) = (k + length ds, [])"
  by (induction ds arbitrary: acc k) simp_all

lemma validate_port_too_many_digits:
  assumes "list_all is_digit ds" "int_max_str_digits < length ds"
  shows "py_int (PyStr ds) = Inl ValueError" "validate_port (PyStr ds) = Inr False"
proof -
  from assms obtain c cs where ds: "ds = c # cs" "is_digit c"
    by (cases ds) auto
  then have "\<not> int_space c" "c \<noteq> CHR ''+''" "c \<noteq> CHR ''-''"
    by (auto simp: is_digit_def int_space_def in_range_def code_of_def)
  moreover obtain n where "scan_digits 0 0 ds = (n, length ds, [])"
    using scan_digits_all [OF assms(1), of 0 0] by (cases "scan_digits 0 0 ds") auto
  ultimately show "py_int (PyStr ds) = Inl ValueError"
    using ds assms(2) by (simp add: int_of_str_def int_of_digits_def)
  then show "validate_port (PyStr ds) = Inr False" by (simp add: validate_port_def)
qed

text \<open>
  Where a validator raises: \<open>validate_port\<close> on the two float infinities, and nothing
  else.
\<close>

lemma py_int_overflow:
  "py_int v = Inl OverflowError \<longleftrightarrow> v = PyFloat PosInf \<or> v = PyFloat NegInf"
proof (cases v)
  case (PyFloat f)
  then show ?thesis by (cases f) auto
next
  case (PyStr s)
  then show ?thesis using int_of_str_error [of s OverflowError] by auto
qed auto

lemma validate_port_raises_iff:
  "validate_port v = Inl e \<longleftrightarrow>
     e = OverflowError \<and> (v = PyFloat PosInf \<or> v = PyFloat NegInf)"
proof -
  have "validate_port v = Inl e \<longleftrightarrow> e = OverflowError \<and> py_int v = Inl OverflowError"
    by (cases "py_int v"; cases e) (auto simp: validate_port_def)
  then show ?thesis by (simp add: py_int_overflow)
qed

text \<open>
  Where \<open>sanitize_input\<close> raises: on a value that is not a string and holds an integer
  of more than 4300 digits, which \<^verbatim>\<open>str()\<close> refuses to write.
\<close>

lemma collect_error: "collect xs = Inl e \<Longrightarrow> Inl e \<in> set xs"
  by (induction xs) (auto split: sum.splits)

lemma collect_raises: "Inl e \<in> set xs \<Longrightarrow> \<exists>e'. collect xs = Inl e'"
  by (induction xs) (auto split: sum.splits)

lemma item_repr_error:
  "item_repr k v = Inl e \<longleftrightarrow> k = Inl e \<or> ((\<exists>ks. k = Inr ks) \<and> v = Inl e)"
  by (cases k; cases v) (simp_all add: item_repr_def)

lemma py_repr_raises_iff:
  "py_repr float_repr v = Inl e \<longleftrightarrow> e = ValueError \<and> has_long_int v"
proof (induction float_repr v arbitrary: e rule: py_repr.induct)
  case (3 float_repr n)
  show ?case by (cases e) (auto simp: int_str_def)
next
  case (9 float_repr xs)
  show ?case
  proof
    assume "py_repr float_repr (PyList xs) = Inl e"
    then have "collect (map (py_repr float_repr) xs) = Inl e"
      by (cases "collect (map (py_repr float_repr) xs)") simp_all
    from collect_error [OF this] obtain x where "x \<in> set xs" "py_repr float_repr x = Inl e"
      by auto
    with 9 show "e = ValueError \<and> has_long_int (PyList xs)"
      by (auto simp: list_ex_iff)
  next
    assume "e = ValueError \<and> has_long_int (PyList xs)"
    then obtain x where x: "x \<in> set xs" "has_long_int x" and e: "e = ValueError"
      by (auto simp: list_ex_iff)
    with 9 have "py_repr float_repr x = Inl ValueError" by simp
    with x have "Inl ValueError \<in> set (map (py_repr float_repr) xs)" by force
    from collect_raises [OF this] obtain e' where e': "collect (map (py_repr float_repr) xs) = Inl e'"
      by blast
    from collect_error [OF this] obtain y where "y \<in> set xs" "py_repr float_repr y = Inl e'"
      by auto
    with 9 have "e' = ValueError" by simp
    with e e' show "py_repr float_repr (PyList xs) = Inl e" by simp
  qed
next
  case (10 float_repr kvs)
  let ?f = "\<lambda>kv. item_repr (py_repr float_repr (fst kv)) (py_repr float_repr (snd kv))"
  have item: "?f kv = Inl e' \<longleftrightarrow>
      e' = ValueError \<and> (has_long_int (fst kv) \<or> has_long_int (snd kv))"
    if "kv \<in> set kvs" for kv e'
  proof -
    have k: "py_repr float_repr (fst kv) = Inl e' \<longleftrightarrow> e' = ValueError \<and> has_long_int (fst kv)"
      and v: "py_repr float_repr (snd kv) = Inl e' \<longleftrightarrow> e' = ValueError \<and> has_long_int (snd kv)"
      using 10 that by simp_all
    show ?thesis
    proof (cases "py_repr float_repr (fst kv)")
      case (Inl a)
      with 10 that have "a = ValueError \<and> has_long_int (fst kv)" by simp
      with Inl show ?thesis by (auto simp: item_repr_error)
    next
      case (Inr ks)
      with 10 [of ] that have "\<not> has_long_int (fst kv)"
        using "10.IH"(1) [OF that, of ValueError] by simp
      with Inr v show ?thesis by (auto simp: item_repr_error)
    qed
  qed
  show ?case
  proof
    assume "py_repr float_repr (PyDict kvs) = Inl e"
    then have "collect (map ?f kvs) = Inl e"
      by (cases "collect (map ?f kvs)") simp_all
    from collect_error [OF this] obtain kv where "kv \<in> set kvs" "?f kv = Inl e"
      by auto
    with item show "e = ValueError \<and> has_long_int (PyDict kvs)"
      by (auto simp: list_ex_iff)
  next
    assume "e = ValueError \<and> has_long_int (PyDict kvs)"
    then obtain kv where kv: "kv \<in> set kvs" "has_long_int (fst kv) \<or> has_long_int (snd kv)"
      and e: "e = ValueError"
      by (auto simp: list_ex_iff)
    with item have "?f kv = Inl ValueError" by simp
    with kv have "Inl ValueError \<in> set (map ?f kvs)" by force
    from collect_raises [OF this] obtain e' where e': "collect (map ?f kvs) = Inl e'"
      by blast
    from collect_error [OF this] obtain y where "y \<in> set kvs" "?f y = Inl e'"
      by auto
    with item have "e' = ValueError" by simp
    with e e' show "py_repr float_repr (PyDict kvs) = Inl e" by simp
  qed
qed auto

lemma sanitize_input_raises_iff:
  "sanitize_input float_repr v = Inl e \<longleftrightarrow> e = ValueError \<and> has_long_int v"
  by (cases v) (simp_all add: sanitize_input_def py_str_def py_repr_raises_iff del: py_repr.simps)

lemma dec_nat_length: "10 ^ k \<le> n \<Longrightarrow> k < length (dec_nat n)"
proof (induction k arbitrary: n)
  case 0
  show ?case by (subst dec_nat.simps) simp
next
  case (Suc k)
  have "(1::nat) \<le> 10 ^ k" by simp
  with Suc.prems have "10 \<le> n" by (simp add: order_trans [of 10 "10 * 10 ^ k" n])
  moreover from Suc.prems have "10 ^ k \<le> n div 10" by simp
  then have "k < length (dec_nat (n div 10))" by (rule Suc.IH)
  ultimately show ?case by (subst dec_nat.simps) simp
qed

lemma sanitize_input_long_int:
  assumes "10 ^ int_max_str_digits \<le> \<bar>n\<bar>"
  shows "sanitize_input float_repr (PyInt n) = Inl ValueError"
proof -
  from assms have "int (10 ^ int_max_str_digits) \<le> \<bar>n\<bar>" by simp
  then have "10 ^ int_max_str_digits \<le> nat \<bar>n\<bar>" by (simp only: le_nat_iff [symmetric] nat_int)
  then have "has_long_int (PyInt n)" using dec_nat_length by simp
  then show ?thesis by (simp add: sanitize_input_raises_iff)
qed

text \<open>The registry as a whole.\<close>

lemma validators_raise_iff:
  "list_ex (\<lambda>entry. fst entry \<noteq> ''sanitize_input'' \<and> snd entry v = Inl e) (filters float_repr)
   \<longleftrightarrow> e = OverflowError \<and> (v = PyFloat PosInf \<or> v = PyFloat NegInf)"
proof -
  have "list_ex (\<lambda>entry. fst entry \<noteq> ''sanitize_input'' \<and> snd entry v = Inl e)
          (filters float_repr)
        \<longleftrightarrow> map_sum id PyBool (validate_port v) = Inl e"
    by (simp add: filters_def)
  also have "\<dots> \<longleftrightarrow> validate_port v = Inl e"
    by (cases "validate_port v") simp_all
  finally show ?thesis by (simp add: validate_port_raises_iff)
qed

lemma filters_raise_iff:
  "list_ex (\<lambda>entry. snd entry v = Inl e) (filters float_repr) \<longleftrightarrow>
     (e = OverflowError \<and> (v = PyFloat PosInf \<or> v = PyFloat NegInf))
     \<or> (e = ValueError \<and> has_long_int v)"
proof -
  have "list_ex (\<lambda>entry. snd entry v = Inl e) (filters float_repr)
        \<longleftrightarrow> map_sum id PyBool (validate_port v) = Inl e
            \<or> map_sum id PyStr (sanitize_input float_repr v) = Inl e"
    by (simp add: filters_def)
  also have "\<dots> \<longleftrightarrow> validate_port v = Inl e \<or> sanitize_input float_repr v = Inl e"
    by (cases "validate_port v"; cases "sanitize_input float_repr v") simp_all
  finally show ?thesis by (simp add: validate_port_raises_iff sanitize_input_raises_iff)
qed

text \<open>
  C2. The claim: every validator of the registry returns a boolean on every input and
  never raises, and \<open>validate_port\<close> returns False on every input that \<^verbatim>\<open>int()\<close>
  does not accept. The code: on the float infinity \<^verbatim>\<open>int()\<close> raises OverflowError,
  which the \<^verbatim>\<open>except (ValueError, TypeError)\<close> clause does not catch, so the
  exception leaves \<open>validate_port\<close>.
\<close>

theorem validate_port_raises_on_infinity:
  "validate_port (PyFloat PosInf) = Inl OverflowError"
  by (simp add: validate_port_def)

text \<open>
  C3. The claim: \<open>validate_port\<close> returns True exactly on the values coercible to a
  non-reserved port in range (80 and 443 exempt), and every value that is not coercible to
  an integer is rejected. The code: negative infinity is not coercible to an integer, and
  \<open>validate_port\<close> does not return False on it.
\<close>

theorem validate_port_uncoercible_not_rejected:
  "(\<nexists>n. py_int (PyFloat NegInf) = Inr n) \<and> validate_port (PyFloat NegInf) \<noteq> Inr False"
  by (simp add: validate_port_def)

text \<open>
  C4, as stated: \<open>validate_port\<close> rejects 79, 81 and 444. The code accepts all three:
  none of them is in the reserved list.
\<close>

theorem validate_port_79_81_444_accepted:
  "validate_port (PyInt 79) = Inr True \<and> validate_port (PyInt 81) = Inr True
   \<and> validate_port (PyInt 444) = Inr True"
  by (simp add: port_defs)

text \<open>
  C4, amended: \<open>validate_port\<close> accepts each of 79, 80, 81, 443 and 444, and it is not
  monotonic over the integers, in neither direction: it accepts 21, rejects 22 and accepts
  23.
\<close>

theorem validate_port_values_not_monotonic:
  "validate_port (PyInt 79) = Inr True \<and> validate_port (PyInt 80) = Inr True
   \<and> validate_port (PyInt 81) = Inr True \<and> validate_port (PyInt 443) = Inr True
   \<and> validate_port (PyInt 444) = Inr True
   \<and> validate_port (PyInt 21) = Inr True \<and> validate_port (PyInt 22) = Inr False
   \<and> validate_port (PyInt 23) = Inr True
   \<and> \<not> mono (\<lambda>n. validate_port (PyInt n) = Inr True)
   \<and> \<not> antimono (\<lambda>n. validate_port (PyInt n) = Inr True)"
proof -
  have v21: "validate_port (PyInt 21) = Inr True"
    and v22: "validate_port (PyInt 22) = Inr False"
    and v23: "validate_port (PyInt 23) = Inr True"
    by (simp_all add: port_defs)
  have "\<not> mono (\<lambda>n. validate_port (PyInt n) = Inr True)"
  proof
    assume "mono (\<lambda>n. validate_port (PyInt n) = Inr True)"
    from monoD [OF this, of 21 22] v21 v22 show False by simp
  qed
  moreover have "\<not> antimono (\<lambda>n. validate_port (PyInt n) = Inr True)"
  proof
    assume "antimono (\<lambda>n. validate_port (PyInt n) = Inr True)"
    from antimonoD [OF this, of 22 23] v22 v23 show False by simp
  qed
  moreover have "validate_port (PyInt 79) = Inr True" "validate_port (PyInt 80) = Inr True"
    "validate_port (PyInt 81) = Inr True" "validate_port (PyInt 443) = Inr True"
    "validate_port (PyInt 444) = Inr True"
    by (simp_all add: port_defs)
  ultimately show ?thesis using v21 v22 v23 by simp
qed

text \<open>
  The double written \<^verbatim>\<open>8.9\<close> is \<open>5010254585449677 * 2 ^ - 49\<close>: a 53-bit mantissa
  within half a unit in the last place of \<open>89 / 10\<close>.
\<close>

lemma double_8_9:
  "(2::int) ^ 52 \<le> 5010254585449677 \<and> (5010254585449677::int) < 2 ^ 53
   \<and> \<bar>10 * 5010254585449677 - 89 * (2::int) ^ 49\<bar> \<le> 5"
  by simp

text \<open>
  C10. \<open>validate_port\<close> coerces before it checks: a boolean is validated as the port
  0 or 1, so True is accepted as port 1; a finite float is truncated towards zero first, so
  8.9 is accepted as port 8.
\<close>

theorem validate_port_coerces_bool_and_float:
  "validate_port (PyBool b) = validate_port (PyInt (if b then 1 else 0))
   \<and> validate_port (PyBool True) = Inr True
   \<and> validate_port (PyFloat (Finite m e)) = validate_port (PyInt (float_trunc m e))
   \<and> float_trunc 5010254585449677 (- 49) = 8
   \<and> validate_port (PyFloat (Finite 5010254585449677 (- 49))) = Inr True"
  by (simp add: validate_port_def reserved_ports_def) (simp add: float_trunc_def)

section \<open>Properties of the string validators and of sanitize_input\<close>

subsection \<open>The matcher decides the meaning of a pattern\<close>

text \<open>
  For a pattern whose repeated parts always read a character, \<open>match_here\<close> succeeds
  exactly when the pattern has a match from that position (\<open>match_here_sem\<close>). The
  proof follows the residuals: a match that reads the first character is a match of the
  residual on the rest.
\<close>

inductive_cases sem_BolE: "rx_sem Bol b s s'"
inductive_cases sem_EolE: "rx_sem Eol b s s'"
inductive_cases sem_SymE: "rx_sem (Sym p) b s s'"
inductive_cases sem_SeqE: "rx_sem (Seq r1 r2) b s s'"
inductive_cases sem_RepE: "rx_sem (Rep lo hi r) b s s'"
inductive_cases sem_AltE: "rx_sem (Alt r1 r2) b s s'"
inductive_cases sem_EpsE: "rx_sem Eps b s s'"
inductive_cases sem_NulE: "rx_sem Nul b s s'"

lemma consuming_not_nullable: "consuming r \<Longrightarrow> \<not> nullable b s r"
  by (induction r) auto

lemma sem_suffix: "rx_sem r b s s' \<Longrightarrow> \<exists>u. s = u @ s'"
  by (induction rule: rx_sem.induct) auto

lemma sem_length: "rx_sem r b s s' \<Longrightarrow> length s' \<le> length s"
  using sem_suffix by fastforce

lemma sem_same: "rx_sem r b s s' \<Longrightarrow> length s \<le> length s' \<Longrightarrow> s' = s"
  using sem_suffix by fastforce

lemma sem_nullable: "rx_sem r b s s' \<Longrightarrow> s' = s \<Longrightarrow> wf_rx r \<Longrightarrow> nullable b s r"
proof (induction rule: rx_sem.induct)
  case (sem_Seq r1 b s s' r2 s'')
  from sem_length [OF sem_Seq.hyps(1)] sem_length [OF sem_Seq.hyps(2)] sem_Seq.prems(1)
  have "length s \<le> length s'" by simp
  with sem_same [OF sem_Seq.hyps(1)] have e: "s' = s" by simp
  with sem_Seq show ?case by simp
next
  case (sem_RepS hi r b s s' lo s'')
  from sem_length [OF sem_RepS.hyps(2)] sem_length [OF sem_RepS.hyps(3)] sem_RepS.prems(1)
  have "length s \<le> length s'" by simp
  with sem_same [OF sem_RepS.hyps(2)] have e: "s' = s" by simp
  with sem_RepS have "nullable b s r" by simp
  with sem_RepS.prems(2) consuming_not_nullable show ?case by auto
qed auto

lemma nullable_sem: "nullable b s r \<Longrightarrow> wf_rx r \<Longrightarrow> rx_sem r b s s"
proof (induction r)
  case (Seq r1 r2)
  then have "rx_sem r1 b s s" "rx_sem r2 (b \<and> s = s) s s" by simp_all
  then show ?case by (rule sem_Seq)
next
  case (Rep lo hi r)
  then have "lo = 0" using consuming_not_nullable by auto
  then show ?case by (simp add: sem_Rep0)
qed (auto intro: rx_sem.intros)

lemma wf_deriv: "wf_rx r \<Longrightarrow> wf_rx (deriv b c cs r)"
  by (induction r) auto

lemma sem_deriv:
  "wf_rx r \<Longrightarrow> rx_sem r b (c # cs) s' \<Longrightarrow> s' \<noteq> c # cs \<Longrightarrow> rx_sem (deriv b c cs r) False cs s'"
proof (induction r arbitrary: s')
  case (Seq r1 r2)
  from Seq.prems(2) obtain s1 where s1: "rx_sem r1 b (c # cs) s1"
    "rx_sem r2 (b \<and> s1 = c # cs) s1 s'" by (auto elim: sem_SeqE)
  show ?case
  proof (cases "s1 = c # cs")
    case True
    with s1 Seq.prems have "nullable b (c # cs) r1" by (auto intro: sem_nullable)
    moreover from True s1 Seq have "rx_sem (deriv b c cs r2) False cs s'" by simp
    ultimately show ?thesis by (auto intro: sem_AltR)
  next
    case False
    with Seq s1 have "rx_sem (deriv b c cs r1) False cs s1" by simp
    moreover from False s1 have "rx_sem r2 (False \<and> s1 = cs) s1 s'" by simp
    ultimately have "rx_sem (Seq (deriv b c cs r1) r2) False cs s'" by (rule sem_Seq)
    then show ?thesis by (auto intro: sem_AltL)
  qed
next
  case (Rep lo hi r)
  from Rep.prems(2,3) obtain s1 where s1: "hi \<noteq> Some 0" "rx_sem r b (c # cs) s1"
    "rx_sem (Rep (lo - 1) (map_option (\<lambda>h. h - 1) hi) r) (b \<and> s1 = c # cs) s1 s'"
    by (auto elim: sem_RepE)
  have ne: "s1 \<noteq> c # cs"
  proof
    assume "s1 = c # cs"
    with s1(2) Rep.prems(1) have "nullable b (c # cs) r" by (auto intro: sem_nullable)
    with Rep.prems(1) consuming_not_nullable show False by auto
  qed
  with Rep s1 have "rx_sem (deriv b c cs r) False cs s1" by simp
  moreover from ne s1 have "rx_sem (Rep (lo - 1) (map_option (\<lambda>h. h - 1) hi) r) (False \<and> s1 = cs) s1 s'"
    by simp
  ultimately have "rx_sem (Seq (deriv b c cs r) (Rep (lo - 1) (map_option (\<lambda>h. h - 1) hi) r)) False cs s'"
    by (rule sem_Seq)
  with s1(1) show ?case by simp
qed (auto elim: sem_BolE sem_EolE sem_SymE sem_AltE sem_EpsE sem_NulE intro: rx_sem.intros)

lemma deriv_sem:
  "wf_rx r \<Longrightarrow> rx_sem (deriv b c cs r) False cs s' \<Longrightarrow> rx_sem r b (c # cs) s'"
proof (induction r arbitrary: s')
  case (Seq r1 r2)
  from Seq.prems(2) have "rx_sem (Seq (deriv b c cs r1) r2) False cs s'
     \<or> (nullable b (c # cs) r1 \<and> rx_sem (deriv b c cs r2) False cs s')"
    by (auto elim: sem_AltE sem_NulE split: if_splits)
  then show ?case
  proof
    assume "rx_sem (Seq (deriv b c cs r1) r2) False cs s'"
    then obtain s1 where s1: "rx_sem (deriv b c cs r1) False cs s1" "rx_sem r2 False s1 s'"
      by (auto elim: sem_SeqE)
    from s1(1) Seq have a: "rx_sem r1 b (c # cs) s1" by simp
    from sem_length [OF s1(1)] have "s1 \<noteq> c # cs" by auto
    with s1(2) have "rx_sem r2 (b \<and> s1 = c # cs) s1 s'" by simp
    with a show ?thesis by (rule sem_Seq)
  next
    assume n: "nullable b (c # cs) r1 \<and> rx_sem (deriv b c cs r2) False cs s'"
    with Seq have "rx_sem r1 b (c # cs) (c # cs)" by (simp add: nullable_sem)
    moreover from n Seq have "rx_sem r2 (b \<and> c # cs = c # cs) (c # cs) s'" by simp
    ultimately show ?thesis by (rule sem_Seq)
  qed
next
  case (Rep lo hi r)
  from Rep.prems(2) have h: "hi \<noteq> Some 0"
    and "rx_sem (Seq (deriv b c cs r) (Rep (lo - 1) (map_option (\<lambda>h. h - 1) hi) r)) False cs s'"
    by (auto elim: sem_NulE split: if_splits)
  then obtain s1 where s1: "rx_sem (deriv b c cs r) False cs s1"
    "rx_sem (Rep (lo - 1) (map_option (\<lambda>h. h - 1) hi) r) False s1 s'"
    by (auto elim: sem_SeqE)
  from s1(1) Rep have a: "rx_sem r b (c # cs) s1" by simp
  from sem_length [OF s1(1)] have "s1 \<noteq> c # cs" by auto
  with s1(2) have "rx_sem (Rep (lo - 1) (map_option (\<lambda>h. h - 1) hi) r) (b \<and> s1 = c # cs) s1 s'"
    by simp
  with h a show ?case by (rule sem_RepS)
qed (auto elim: sem_BolE sem_EolE sem_SymE sem_AltE sem_EpsE sem_NulE intro: rx_sem.intros split: if_splits)

lemma match_here_sem: "wf_rx r \<Longrightarrow> match_here b r s \<longleftrightarrow> (\<exists>s'. rx_sem r b s s')"
proof (induction s arbitrary: b r)
  case Nil
  show ?case
  proof
    assume "match_here b r []"
    with Nil show "\<exists>s'. rx_sem r b [] s'" by (auto intro: nullable_sem)
  next
    assume "\<exists>s'. rx_sem r b [] s'"
    then obtain s' where s': "rx_sem r b [] s'" ..
    from sem_length [OF this] have "s' = []" by simp
    with s' Nil show "match_here b r []" by (auto intro: sem_nullable)
  qed
next
  case (Cons c cs)
  have IH: "match_here False (deriv b c cs r) cs \<longleftrightarrow> (\<exists>s'. rx_sem (deriv b c cs r) False cs s')"
    using Cons.IH [OF wf_deriv [OF Cons.prems]] .
  show ?case
  proof
    assume "match_here b r (c # cs)"
    then consider "nullable b (c # cs) r" | "match_here False (deriv b c cs r) cs" by auto
    then show "\<exists>s'. rx_sem r b (c # cs) s'"
    proof cases
      case 1
      with Cons.prems show ?thesis by (auto intro: nullable_sem)
    next
      case 2
      with IH Cons.prems show ?thesis by (auto intro: deriv_sem)
    qed
  next
    assume "\<exists>s'. rx_sem r b (c # cs) s'"
    then obtain s' where s': "rx_sem r b (c # cs) s'" ..
    show "match_here b r (c # cs)"
    proof (cases "s' = c # cs")
      case True
      with s' Cons.prems have "nullable b (c # cs) r" by (auto intro: sem_nullable)
      then show ?thesis by simp
    next
      case False
      from sem_deriv [OF Cons.prems s' False] have "rx_sem (deriv b c cs r) False cs s'" .
      with IH show ?thesis by auto
    qed
  qed
qed

text \<open>Every pattern of the source is of that kind.\<close>

lemma source_patterns_wf:
  "wf_rx php_version_pattern" "wf_rx database_name_pattern" "wf_rx domain_name_pattern"
  "wf_rx email_pattern" "list_all wf_rx git_url_patterns"
  "wf_rx (Sym upper)" "wf_rx (Sym lower)" "wf_rx (Sym is_digit)"
  by (simp_all add: php_version_pattern_def database_name_pattern_def domain_name_pattern_def
      label_def email_pattern_def git_url_patterns_def ch_def lit_def)

subsection \<open>What the version and domain patterns accept\<close>

text \<open>The meaning of each construct, read off the relation.\<close>

lemma sem_Bol_iff: "rx_sem Bol b s s' \<longleftrightarrow> b \<and> s' = s"
  by (auto elim: sem_BolE intro: sem_Bol)

lemma sem_Eol_iff: "rx_sem Eol b s s' \<longleftrightarrow> s' = s \<and> (s = [] \<or> s = [CHR 0x0A])"
  by (auto elim: sem_EolE intro: sem_Eol)

lemma sem_Sym_iff: "rx_sem (Sym p) b s s' \<longleftrightarrow> (\<exists>c. s = c # s' \<and> p c)"
  by (auto elim: sem_SymE intro: sem_Sym)

lemma sem_Seq_iff:
  "rx_sem (Seq r1 r2) b s s'' \<longleftrightarrow> (\<exists>s'. rx_sem r1 b s s' \<and> rx_sem r2 (b \<and> s' = s) s' s'')"
  by (auto elim: sem_SeqE intro: sem_Seq)

lemma sem_Rep_iff:
  "rx_sem (Rep lo hi r) b s s'' \<longleftrightarrow>
     (lo = 0 \<and> s'' = s)
     \<or> (hi \<noteq> Some 0 \<and> (\<exists>s'. rx_sem r b s s'
            \<and> rx_sem (Rep (lo - 1) (map_option (\<lambda>h. h - 1) hi) r) (b \<and> s' = s) s' s''))"
  by (auto elim: sem_RepE intro: sem_Rep0 sem_RepS)

lemma sem_Rep_Some0: "rx_sem (Rep lo (Some 0) r) b s s' \<longleftrightarrow> lo = 0 \<and> s' = s"
  by (auto elim: sem_RepE intro: sem_Rep0)

lemma sem_Opt_iff: "rx_sem (Opt r) b s s' \<longleftrightarrow> s' = s \<or> rx_sem r b s s'"
  by (subst sem_Rep_iff) (auto simp: sem_Rep_Some0)

lemma sem_Opt_Suc_iff: "rx_sem (Rep 0 (Some (Suc 0)) r) b s s' \<longleftrightarrow> s' = s \<or> rx_sem r b s s'"
  using sem_Opt_iff [of r b s s'] by simp

lemma re_match_sem: "wf_rx r \<Longrightarrow> re_match r s \<longleftrightarrow> (\<exists>s'. rx_sem r True s s')"
  by (simp add: re_match_def match_here_sem)

text \<open>
  \<open>validate_php_version\<close> accepts a 7 or 8, a dot and a digit, and the same followed by
  one newline; nothing else.
\<close>

lemma php_version_pattern_matches:
  "re_match php_version_pattern s \<longleftrightarrow>
     (\<exists>a d. (a = CHR ''7'' \<or> a = CHR ''8'') \<and> is_digit d
        \<and> (s = [a, CHR ''.'', d] \<or> s = [a, CHR ''.'', d, CHR 0x0A]))"
proof -
  have "wf_rx php_version_pattern" by (simp add: php_version_pattern_def ch_def)
  then show ?thesis
    by (auto simp: re_match_sem php_version_pattern_def ch_def one_of_def
        sem_Seq_iff sem_Bol_iff sem_Eol_iff sem_Sym_iff)
qed

lemma validate_php_version_accepts_iff:
  "validate_php_version v \<longleftrightarrow>
     (\<exists>a d. (a = CHR ''7'' \<or> a = CHR ''8'') \<and> is_digit d
        \<and> (v = PyStr [a, CHR ''.'', d] \<or> v = PyStr [a, CHR ''.'', d, CHR 0x0A]))"
  by (cases v) (auto simp: validate_php_version_def php_version_pattern_matches)


text \<open>
  \<open>validate_domain_name\<close> accepts the domain names of the spec, and a domain name of at
  most 252 characters followed by one newline; nothing else. The steps: a bounded run of a
  class, one label, the dotted labels under the star, the whole pattern, and the parts
  between dots.
\<close>

lemma sem_bounded_class:
  "rx_sem (Rep 0 (Some n) (Sym p)) b s s' \<longleftrightarrow> (\<exists>l. s = l @ s' \<and> length l \<le> n \<and> list_all p l)"
proof (induction n arbitrary: b s)
  case 0
  show ?case by (auto simp: sem_Rep_Some0)
next
  case (Suc n)
  have "rx_sem (Rep 0 (Some (Suc n)) (Sym p)) b s s' \<longleftrightarrow>
      s' = s \<or> (\<exists>c l. s = c # l @ s' \<and> p c \<and> length l \<le> n \<and> list_all p l)"
    by (subst sem_Rep_iff) (auto simp: sem_Sym_iff Suc.IH)
  also have "\<dots> \<longleftrightarrow> (\<exists>l. s = l @ s' \<and> length l \<le> Suc n \<and> list_all p l)"
  proof
    assume "s' = s \<or> (\<exists>c l. s = c # l @ s' \<and> p c \<and> length l \<le> n \<and> list_all p l)"
    then show "\<exists>l. s = l @ s' \<and> length l \<le> Suc n \<and> list_all p l"
    proof
      assume "s' = s"
      then have "s = [] @ s' \<and> length ([]::string) \<le> Suc n \<and> list_all p []" by simp
      then show ?thesis by blast
    next
      assume "\<exists>c l. s = c # l @ s' \<and> p c \<and> length l \<le> n \<and> list_all p l"
      then obtain c l where "s = c # l @ s'" "p c" "length l \<le> n" "list_all p l" by blast
      then have "s = (c # l) @ s' \<and> length (c # l) \<le> Suc n \<and> list_all p (c # l)" by simp
      then show ?thesis by blast
    qed
  next
    assume "\<exists>l. s = l @ s' \<and> length l \<le> Suc n \<and> list_all p l"
    then obtain l where l: "s = l @ s'" "length l \<le> Suc n" "list_all p l" by blast
    show "s' = s \<or> (\<exists>c l. s = c # l @ s' \<and> p c \<and> length l \<le> n \<and> list_all p l)"
      using l by (cases l) auto
  qed
  finally show ?case .
qed

lemma sem_label: "rx_sem label b s s' \<longleftrightarrow> (\<exists>l. s = l @ s' \<and> spec_label l)"
proof
  assume "rx_sem label b s s'"
  then obtain a s1 where a: "s = a # s1" "alnum a"
    and r: "s' = s1 \<or> (\<exists>m z. s1 = m @ z # s' \<and> length m \<le> 61
              \<and> list_all (\<lambda>c. alnum c \<or> c = CHR ''-'') m \<and> alnum z)"
    by (auto simp: label_def sem_Seq_iff sem_Sym_iff sem_Opt_Suc_iff sem_bounded_class)
  from r show "\<exists>l. s = l @ s' \<and> spec_label l"
  proof
    assume "s' = s1"
    with a have "s = [a] @ s' \<and> spec_label [a]" by (simp add: spec_label_def)
    then show ?thesis by blast
  next
    assume "\<exists>m z. s1 = m @ z # s' \<and> length m \<le> 61
              \<and> list_all (\<lambda>c. alnum c \<or> c = CHR ''-'') m \<and> alnum z"
    then obtain m z where m: "s1 = m @ z # s'" "length m \<le> 61"
      "list_all (\<lambda>c. alnum c \<or> c = CHR ''-'') m" "alnum z" by blast
    with a have "s = (a # m @ [z]) @ s' \<and> spec_label (a # m @ [z])"
      by (simp add: spec_label_def)
    then show ?thesis by blast
  qed
next
  assume "\<exists>l. s = l @ s' \<and> spec_label l"
  then obtain l where l: "s = l @ s'" "spec_label l" by blast
  then obtain a t where t: "l = a # t" by (cases l) (auto simp: spec_label_def)
  show "rx_sem label b s s'"
  proof (cases t rule: rev_cases)
    case Nil
    with l t show ?thesis
      by (auto simp: label_def sem_Seq_iff sem_Sym_iff sem_Opt_Suc_iff spec_label_def)
  next
    case (snoc m z)
    with l t have "length m \<le> 61" "list_all (\<lambda>c. alnum c \<or> c = CHR ''-'') m" "alnum z" "alnum a"
      by (auto simp: spec_label_def)
    moreover from l t snoc have "s = a # m @ z # s'" by simp
    ultimately show ?thesis
      by (auto simp: label_def sem_Seq_iff sem_Sym_iff sem_Opt_Suc_iff sem_bounded_class)
  qed
qed

lemma sem_Star_words_only_if:
  assumes W: "\<And>b s s'. rx_sem r b s s' \<Longrightarrow> \<exists>w. s = w @ s' \<and> W w"
  shows "rx_sem R b s s' \<Longrightarrow> R = Star r \<Longrightarrow> \<exists>ws. s = concat ws @ s' \<and> list_all W ws"
proof (induction rule: rx_sem.induct)
  case (sem_Rep0 hi r' b s)
  have "s = concat [] @ s \<and> list_all W []" by simp
  then show ?case by blast
next
  case (sem_RepS hi r' b s s' lo s'')
  then have "rx_sem r b s s'" by simp
  from W [OF this] obtain w where w: "s = w @ s'" "W w" by blast
  from sem_RepS obtain ws where ws: "s' = concat ws @ s''" "list_all W ws" by auto
  from w ws have "s = concat (w # ws) @ s'' \<and> list_all W (w # ws)" by simp
  then show ?case by blast
qed simp_all

lemma sem_Star_words_if:
  assumes W: "\<And>b s s' w. W w \<Longrightarrow> rx_sem r b (w @ s') s'"
  shows "list_all W ws \<Longrightarrow> rx_sem (Star r) b (concat ws @ s') s'"
proof (induction ws arbitrary: b)
  case Nil
  show ?case by (simp add: sem_Rep0)
next
  case (Cons w ws)
  then have "rx_sem r b (w @ concat ws @ s') (concat ws @ s')" by (simp add: W)
  moreover from Cons have "rx_sem (Rep (0 - 1) (map_option (\<lambda>h. h - 1) None) r)
     (b \<and> concat ws @ s' = w @ concat ws @ s') (concat ws @ s') s'" by simp
  ultimately have "rx_sem (Star r) b (w @ concat ws @ s') s'"
    by (rule sem_RepS [rotated 1]) simp
  then show ?case by simp
qed

lemma sem_dotted_labels:
  "rx_sem (Star (Seq label (ch CHR ''.''))) b s s' \<longleftrightarrow>
     (\<exists>xs. s = concat (map (\<lambda>x. x @ ''.'') xs) @ s' \<and> list_all spec_label xs)"
proof
  assume "rx_sem (Star (Seq label (ch CHR ''.''))) b s s'"
  then have "\<exists>ws. s = concat ws @ s' \<and> list_all (\<lambda>w. \<exists>x. spec_label x \<and> w = x @ ''.'') ws"
    by (rule sem_Star_words_only_if [rotated 1])
       (auto simp: sem_Seq_iff sem_label ch_def sem_Sym_iff)
  then obtain ws where ws: "s = concat ws @ s'"
    "list_all (\<lambda>w. \<exists>x. spec_label x \<and> w = x @ ''.'') ws" by blast
  from ws(2) have "\<exists>xs. ws = map (\<lambda>x. x @ ''.'') xs \<and> list_all spec_label xs"
  proof (induction ws)
    case Nil
    then show ?case by simp
  next
    case (Cons w ws)
    then obtain x xs where "spec_label x" "w = x @ ''.''" "ws = map (\<lambda>x. x @ ''.'') xs"
      "list_all spec_label xs" by auto
    then have "w # ws = map (\<lambda>x. x @ ''.'') (x # xs) \<and> list_all spec_label (x # xs)" by simp
    then show ?case by (rule exI [of _ "x # xs"])
  qed
  with ws(1) show "\<exists>xs. s = concat (map (\<lambda>x. x @ ''.'') xs) @ s' \<and> list_all spec_label xs"
    by blast
next
  assume "\<exists>xs. s = concat (map (\<lambda>x. x @ ''.'') xs) @ s' \<and> list_all spec_label xs"
  then obtain xs where xs: "s = concat (map (\<lambda>x. x @ ''.'') xs) @ s'" "list_all spec_label xs"
    by blast
  have "list_all (\<lambda>w. \<exists>x. spec_label x \<and> w = x @ ''.'') (map (\<lambda>x. x @ ''.'') xs)"
    using xs(2) by (induction xs) auto
  then have "rx_sem (Star (Seq label (ch CHR ''.''))) b (concat (map (\<lambda>x. x @ ''.'') xs) @ s') s'"
    by (rule sem_Star_words_if [rotated 1])
       (auto simp: sem_Seq_iff sem_label ch_def sem_Sym_iff)
  with xs(1) show "rx_sem (Star (Seq label (ch CHR ''.''))) b s s'" by simp
qed

lemma domain_name_pattern_matches:
  "re_match domain_name_pattern s \<longleftrightarrow>
     (\<exists>xs l rest. s = concat (map (\<lambda>x. x @ ''.'') xs) @ l @ rest \<and> list_all spec_label xs
        \<and> spec_label l \<and> (rest = [] \<or> rest = [CHR 0x0A]))"
proof -
  have "wf_rx domain_name_pattern" by (simp add: domain_name_pattern_def label_def ch_def)
  then show ?thesis
    by (simp add: re_match_sem domain_name_pattern_def sem_Seq_iff sem_Bol_iff sem_Eol_iff
        sem_dotted_labels sem_label) blast
qed


lemma split_on_not_Nil: "split_on d s \<noteq> []"
  by (induction s) (auto split: list.splits)

lemma split_on_line: "d \<notin> set l \<Longrightarrow> split_on d (l @ d # rest) = l # split_on d rest"
  by (induction l) auto

lemma split_on_single: "d \<notin> set l \<Longrightarrow> split_on d l = [l]"
  by (induction l) auto

lemma split_on_dotted:
  "\<forall>x \<in> set xs. d \<notin> set x \<Longrightarrow> d \<notin> set l \<Longrightarrow>
   split_on d (concat (map (\<lambda>x. x @ [d]) xs) @ l) = xs @ [l]"
  by (induction xs) (simp_all add: split_on_single split_on_line)

lemma unsplit_on:
  "concat (map (\<lambda>x. x @ [d]) (butlast (split_on d s))) @ last (split_on d s) = s"
proof (induction s)
  case Nil
  show ?case by simp
next
  case (Cons c cs)
  obtain l ls where l: "split_on d cs = l # ls"
    using split_on_not_Nil [of d cs] by (cases "split_on d cs") auto
  with Cons show ?case by (cases "ls = []") auto
qed

lemma spec_label_no_dot: "spec_label l \<Longrightarrow> CHR ''.'' \<notin> set l"
  by (auto simp: spec_label_def list_all_iff alnum_def lower_def upper_def is_digit_def
      in_range_def code_of_def)

lemma validate_domain_name_accepts_iff:
  "validate_domain_name v \<longleftrightarrow>
     (\<exists>s. spec_domain s
        \<and> (v = PyStr s \<or> (v = PyStr (s @ [CHR 0x0A]) \<and> length s \<le> 252)))"
proof
  assume a: "validate_domain_name v"
  then obtain t where t: "v = PyStr t" "t \<noteq> []" "length t \<le> 253"
    "re_match domain_name_pattern t"
    by (cases v) (auto simp: validate_domain_name_def split: if_splits)
  from t(4) obtain xs l rest where x: "t = concat (map (\<lambda>x. x @ ''.'') xs) @ l @ rest"
    "list_all spec_label xs" "spec_label l" "rest = [] \<or> rest = [CHR 0x0A]"
    unfolding domain_name_pattern_matches by blast
  define s where "s = concat (map (\<lambda>x. x @ ''.'') xs) @ l"
  have "split_on CHR ''.'' s = xs @ [l]"
    unfolding s_def using x(2,3) spec_label_no_dot
    by (intro split_on_dotted) (auto simp: list_all_iff)
  with x(2,3) have "list_all spec_label (split_on CHR ''.'' s)" by simp
  moreover from x(3) have "s \<noteq> []" by (auto simp: s_def spec_label_def)
  moreover from x(1) t(3) have "length s \<le> 253" by (simp add: s_def)
  ultimately have d: "spec_domain s" by (simp add: spec_domain_def)
  from x(4) show "\<exists>s. spec_domain s
        \<and> (v = PyStr s \<or> (v = PyStr (s @ [CHR 0x0A]) \<and> length s \<le> 252))"
  proof
    assume "rest = []"
    with x(1) t(1) have "v = PyStr s" by (simp add: s_def)
    with d show ?thesis by blast
  next
    assume "rest = [CHR 0x0A]"
    with x(1) t(1,3) have "v = PyStr (s @ [CHR 0x0A])" "length s \<le> 252" by (simp_all add: s_def)
    with d show ?thesis by blast
  qed
next
  assume "\<exists>s. spec_domain s
        \<and> (v = PyStr s \<or> (v = PyStr (s @ [CHR 0x0A]) \<and> length s \<le> 252))"
  then obtain s where s: "spec_domain s"
    "v = PyStr s \<or> (v = PyStr (s @ [CHR 0x0A]) \<and> length s \<le> 252)" by blast
  define xs where "xs = butlast (split_on CHR ''.'' s)"
  define l where "l = last (split_on CHR ''.'' s)"
  have sp: "split_on CHR ''.'' s = xs @ [l]"
    using split_on_not_Nil [of "CHR ''.''" s] by (simp add: xs_def l_def)
  with s(1) have lab: "list_all spec_label xs" "spec_label l" by (simp_all add: spec_domain_def)
  have e: "s = concat (map (\<lambda>x. x @ ''.'') xs) @ l"
    using unsplit_on [of "CHR ''.''" s] by (simp add: xs_def l_def)
  have m: "re_match domain_name_pattern (s @ rest)" if "rest = [] \<or> rest = [CHR 0x0A]" for rest
    unfolding domain_name_pattern_matches using e lab that by auto
  from s(2) show "validate_domain_name v"
  proof
    assume "v = PyStr s"
    with m [of "[]"] s(1) show ?thesis by (simp add: validate_domain_name_def spec_domain_def)
  next
    assume "v = PyStr (s @ [CHR 0x0A]) \<and> length s \<le> 252"
    with m [of "[CHR 0x0A]"] show ?thesis by (simp add: validate_domain_name_def)
  qed
qed

subsection \<open>The claims\<close>

lemmas rx_eval = re_match_def re_search_def ch_def lit_def one_of_def lower_def upper_def
  alnum_def is_digit_def in_range_def code_of_def py_isspace_def any_char_def host_start_def
  non_space_def non_slash_def

lemmas str_eval = sanitize_input_def strip_def remove_char_def dangerous_chars_def
  py_isspace_def in_range_def code_of_def py_str_def int_str_def int_max_str_digits_def
  item_repr_def dec_int_def dec_nat.simps digit_char_def
  repr_str_def repr_char_def str_quote_def printable_def hex_digit_def Let_def

text \<open>
  What \<open>sanitize_input\<close> does: a string loses the dangerous characters and is
  trimmed, so the result holds none of them and neither starts nor ends with whitespace;
  any other value comes back as its string coercion, with nothing removed.
\<close>

lemma fold_remove_char: "fold remove_char cs s = filter (\<lambda>c. c \<notin> set cs) s"
  by (induction cs arbitrary: s) (simp_all add: remove_char_def conj_commute)

lemma strip_ends:
  "strip s = [] \<or> (\<not> py_isspace (hd (strip s)) \<and> \<not> py_isspace (last (strip s)))"
proof (cases "strip s = []")
  case True
  then show ?thesis by simp
next
  case False
  define t where "t = dropWhile py_isspace s"
  define u where "u = dropWhile py_isspace (rev t)"
  have st: "strip s = rev u" by (simp add: strip_def t_def u_def)
  with False have u: "u \<noteq> []" by simp
  then have "\<not> py_isspace (hd u)" unfolding u_def by (rule hd_dropWhile)
  then have l: "\<not> py_isspace (last (strip s))" using u by (simp add: st last_rev)
  have "rev t = takeWhile py_isspace (rev t) @ u" by (simp add: u_def)
  then have "t = rev u @ rev (takeWhile py_isspace (rev t))"
    by (metis rev_append rev_rev_ident)
  then have "hd t = hd (rev u)" using u by (metis hd_append2 rev_is_Nil_conv)
  moreover have "t \<noteq> []" using u by (auto simp: u_def)
  then have "\<not> py_isspace (hd t)" unfolding t_def by (rule hd_dropWhile)
  ultimately show ?thesis using l by (simp add: st)
qed

lemma strip_subset: "set (strip s) \<subseteq> set s"
proof -
  have "set (strip s) \<subseteq> set (dropWhile py_isspace s)"
    using set_dropWhileD [of _ py_isspace "rev (dropWhile py_isspace s)"]
    by (auto simp: strip_def)
  then show ?thesis using set_dropWhileD [of _ py_isspace s] by blast
qed

lemma sanitize_input_string:
  "\<exists>r. sanitize_input float_repr (PyStr s) = Inr r
       \<and> r = strip (filter (\<lambda>c. c \<notin> set ''`$|&;(){}<>'') s)
       \<and> set r \<inter> set ''`$|&;(){}<>'' = {}
       \<and> (r = [] \<or> (\<not> py_isspace (hd r) \<and> \<not> py_isspace (last r)))"
proof -
  define r where "r = strip (filter (\<lambda>c. c \<notin> set ''`$|&;(){}<>'') s)"
  have d: "dangerous_chars = ''`$|&;(){}<>''" by (simp add: dangerous_chars_def)
  have f: "sanitize_input float_repr (PyStr s) = Inr r"
    unfolding sanitize_input_def fold_remove_char d r_def by simp
  have n: "set r \<inter> set ''`$|&;(){}<>'' = {}"
    unfolding r_def using strip_subset [of "filter (\<lambda>c. c \<notin> set ''`$|&;(){}<>'') s"] by auto
  have e: "r = [] \<or> (\<not> py_isspace (hd r) \<and> \<not> py_isspace (last r))"
    unfolding r_def by (rule strip_ends)
  from f n e r_def show ?thesis by (intro exI conjI)
qed

lemma sanitize_input_not_string:
  "(\<forall>t. v \<noteq> PyStr t) \<Longrightarrow> sanitize_input float_repr v = py_str float_repr v"
  by (cases v) (simp_all add: sanitize_input_def)

lemma sanitize_input_examples:
  "sanitize_input float_repr (PyStr ''a;b`c'') = Inr ''abc''"
  "sanitize_input float_repr (PyInt 42) = Inr ''42''"
  "sanitize_input float_repr (PyDict []) = Inr ''{}''"
  by (simp_all add: str_eval)

text \<open>
  C5. The claim: \<open>sanitize_input\<close> coerces every input to a string, then removes every
  occurrence of the characters \<^verbatim>\<open>` $ | & ; ( ) { } < >\<close>, then trims, and never raises.
  The code: a value that is not a string is returned as \<^verbatim>\<open>str(input_str)\<close> before any
  removal, so the list holding the string \<^verbatim>\<open>$(id)\<close> comes back with \<^verbatim>\<open>$\<close> and both
  parentheses in it, while the string itself is cleaned to \<^verbatim>\<open>id\<close>.
\<close>

theorem sanitize_input_list_keeps_payload:
  "sanitize_input float_repr (PyList [PyStr ''$(id)''])
     = Inr ([CHR ''['', CHR 0x27] @ ''$(id)'' @ [CHR 0x27, CHR '']''])
   \<and> sanitize_input float_repr (PyStr ''$(id)'') = Inr ''id''"
  by (simp add: str_eval)

text \<open>
  C8. The claim: \<open>validate_php_version\<close> accepts exactly the three-character strings
  made of 7 or 8, a dot and one digit. The code: \<^verbatim>\<open>$\<close> also holds before a final
  newline, so the four-character string \<^verbatim>\<open>"8.1\n"\<close> is accepted. This is the
  only difference (\<open>validate_php_version_accepts_iff\<close>).
\<close>

theorem validate_php_version_trailing_newline:
  "validate_php_version (PyStr (''8.1'' @ [CHR 0x0A]))"
  by (simp add: validate_php_version_def php_version_pattern_def rx_eval)

lemma validate_php_version_examples:
  "validate_php_version (PyStr ''8.1'')" "validate_php_version (PyStr ''7.4'')"
  "\<not> validate_php_version (PyStr ''8.10'')" "\<not> validate_php_version (PyStr ''9.1'')"
  "\<not> validate_php_version (PyInt 8)" "\<not> validate_php_version (PyFloat (Finite 81 0))"
  by (simp_all add: validate_php_version_def php_version_pattern_def rx_eval)


text \<open>
  C9. The claim: \<open>validate_domain_name\<close> accepts exactly the dot-separated labels of
  alphanumerics and inner hyphens. The code: \<^verbatim>\<open>$\<close> also holds before a final newline,
  so \<^verbatim>\<open>"localhost\n"\<close>, whose last label ends in a newline, is accepted. This is
  the only difference (\<open>validate_domain_name_accepts_iff\<close>).
\<close>

theorem validate_domain_name_trailing_newline:
  "validate_domain_name (PyStr (''localhost'' @ [CHR 0x0A]))"
  by (simp add: validate_domain_name_def domain_name_pattern_def label_def rx_eval)

lemma validate_domain_name_examples:
  "validate_domain_name (PyStr ''localhost'')" "\<not> validate_domain_name (PyStr ''-bad-.com'')"
  "\<not> validate_domain_name (PyStr [])" "\<not> validate_domain_name PyNone"
  by (simp_all add: validate_domain_name_def domain_name_pattern_def label_def rx_eval)

section \<open>Properties of the secrets generator\<close>

text \<open>
  What the random draws give whatever the stream: \<open>k\<close> choices are \<open>k\<close> characters
  of the alphabet, and neither a password nor a token holds a newline, so each value of
  the rendered text stays on its line.
\<close>

lemma choices_numeral:
  "choices (numeral v) xs g =
     (case choice xs g of (c, g') \<Rightarrow>
        (case choices (pred_numeral v) xs g' of (cs, g'') \<Rightarrow> (c # cs, g'')))"
  by (simp add: numeral_eq_Suc)

lemma choices_length: "length (fst (choices k xs g)) = k"
proof (induction k arbitrary: g)
  case 0
  then show ?case by simp
next
  case (Suc k)
  obtain c g' where c: "choice xs g = (c, g')" by (cases "choice xs g")
  obtain cs g'' where cs: "choices k xs g' = (cs, g'')" by (cases "choices k xs g'")
  from Suc.IH [of g'] cs have "length cs = k" by simp
  then show ?case using c cs by simp
qed

lemma choice_in_set: "xs \<noteq> [] \<Longrightarrow> fst (choice xs g) \<in> set xs"
  by (simp add: choice_def randbelow_def)

lemma choices_subset: "xs \<noteq> [] \<Longrightarrow> set (fst (choices k xs g)) \<subseteq> set xs"
proof (induction k arbitrary: g)
  case 0
  then show ?case by simp
next
  case (Suc k)
  obtain c g' where c: "choice xs g = (c, g')" by (cases "choice xs g")
  obtain cs g'' where cs: "choices k xs g' = (cs, g'')" by (cases "choices k xs g'")
  from choice_in_set [OF Suc.prems, of g] c have "c \<in> set xs" by simp
  moreover from Suc.IH [OF Suc.prems, of g'] cs have "set cs \<subseteq> set xs" by simp
  ultimately show ?case using c cs by simp
qed

lemma generate_password_no_newline:
  "CHR 0x0A \<notin> set (fst (generate_password n c g))"
proof (cases "c = PyStr ''high''")
  case True
  have "set (fst (generate_password n c g)) \<subseteq> set (ascii_letters @ digits @ ''!@#$%^&*'')"
    using True choices_subset [of "ascii_letters @ digits @ ''!@#$%^&*''" "nat n" g]
    by (simp add: generate_password_def)
  moreover have "CHR 0x0A \<notin> set (ascii_letters @ digits @ ''!@#$%^&*'')"
    by (simp add: ascii_letters_def digits_def)
  ultimately show ?thesis by blast
next
  case False
  have "set (fst (generate_password n c g)) \<subseteq> set (ascii_letters @ digits)"
    using False choices_subset [of "ascii_letters @ digits" "nat n" g]
    by (simp add: generate_password_def ascii_letters_def)
  moreover have "CHR 0x0A \<notin> set (ascii_letters @ digits)"
    by (simp add: ascii_letters_def digits_def)
  ultimately show ?thesis by blast
qed

lemma b64_nth: "i < 64 \<Longrightarrow> b64_alphabet ! i \<in> set b64_alphabet"
  by (rule nth_mem) (simp add: b64_alphabet_def)

lemma urlsafe_b64encode_chars:
  "\<forall>x \<in> set bs. x < 256 \<Longrightarrow> set (urlsafe_b64encode bs) \<subseteq> insert CHR ''='' (set b64_alphabet)"
proof (induction bs rule: urlsafe_b64encode.induct)
  case (1 a b c rest)
  have "a div 4 < 64" "(a mod 4) * 16 + b div 16 < 64" "(b mod 16) * 4 + c div 64 < 64" "c mod 64 < 64"
    using "1.prems" by auto
  then have "b64_alphabet ! (a div 4) \<in> set b64_alphabet"
    "b64_alphabet ! ((a mod 4) * 16 + b div 16) \<in> set b64_alphabet"
    "b64_alphabet ! ((b mod 16) * 4 + c div 64) \<in> set b64_alphabet"
    "b64_alphabet ! (c mod 64) \<in> set b64_alphabet"
    by (simp_all only: b64_nth)
  moreover have "set (urlsafe_b64encode rest) \<subseteq> insert CHR ''='' (set b64_alphabet)"
    using 1 by simp
  ultimately show ?case by auto
next
  case (2 a b)
  have "a div 4 < 64" "(a mod 4) * 16 + b div 16 < 64" "(b mod 16) * 4 < 64"
    using "2.prems" by auto
  then have "b64_alphabet ! (a div 4) \<in> set b64_alphabet"
    "b64_alphabet ! ((a mod 4) * 16 + b div 16) \<in> set b64_alphabet"
    "b64_alphabet ! ((b mod 16) * 4) \<in> set b64_alphabet"
    by (simp_all only: b64_nth)
  then show ?case by auto
next
  case (3 a)
  have "a div 4 < 64" "(a mod 4) * 16 < 64" using "3.prems" by auto
  then have "b64_alphabet ! (a div 4) \<in> set b64_alphabet"
    "b64_alphabet ! ((a mod 4) * 16) \<in> set b64_alphabet"
    by (simp_all only: b64_nth)
  then show ?case by auto
next
  case 4
  then show ?case by simp
qed

lemma token_urlsafe_no_newline: "CHR 0x0A \<notin> set (fst (token_urlsafe n g))"
proof -
  have "set (fst (token_urlsafe n g)) \<subseteq> set (urlsafe_b64encode (map (\<lambda>x. x mod 256) (stake n g)))"
    using set_dropWhileD [of _ "\<lambda>c. c = CHR ''=''" "rev (urlsafe_b64encode (map (\<lambda>x. x mod 256) (stake n g)))"]
    by (auto simp: token_urlsafe_def token_bytes_def rstrip_eq_def)
  also have "\<dots> \<subseteq> insert CHR ''='' (set b64_alphabet)"
    by (rule urlsafe_b64encode_chars) simp
  finally show ?thesis by (auto simp: b64_alphabet_def)
qed

lemma lines_of_line: "CHR 0x0A \<notin> set l \<Longrightarrow> lines_of (l @ CHR 0x0A # rest) = l # lines_of rest"
  by (induction l) auto

lemma lines_of_text_of_lines:
  "\<forall>l \<in> set ls. CHR 0x0A \<notin> set l \<Longrightarrow> lines_of (text_of_lines ls) = ls"
  by (induction ls) (simp_all add: text_of_lines_def lines_of_line)

text \<open>
  C6. For every length \<open>n \<ge> 0\<close> and every complexity, \<open>generate_password\<close> returns
  exactly \<open>n\<close> characters, all of the alphabet the complexity selects: letters, digits
  and the eight symbols for \<open>high\<close>, letters and digits for anything else. In particular
  a call with 16 and \<open>high\<close> gives 16 characters of the high alphabet.
\<close>

theorem generate_password_length_alphabet:
  assumes "0 \<le> n"
  shows "int (length (fst (generate_password n complexity g))) = n
    \<and> set (fst (generate_password n complexity g))
        \<subseteq> set (if complexity = PyStr ''high''
                 then ''abcdefghijklmnopqrstuvwxyzABCDEFGHIJKLMNOPQRSTUVWXYZ0123456789!@#$%^&*''
                 else ''abcdefghijklmnopqrstuvwxyzABCDEFGHIJKLMNOPQRSTUVWXYZ0123456789'')
    \<and> length (fst (generate_password 16 (PyStr ''high'') g)) = 16
    \<and> set (fst (generate_password 16 (PyStr ''high'') g))
        \<subseteq> set ''abcdefghijklmnopqrstuvwxyzABCDEFGHIJKLMNOPQRSTUVWXYZ0123456789!@#$%^&*''"
proof -
  have len: "length (fst (generate_password m c g)) = nat m" for m c
    by (simp add: generate_password_def Let_def choices_length)
  have high: "set (fst (generate_password m (PyStr ''high'') g))
        \<subseteq> set ''abcdefghijklmnopqrstuvwxyzABCDEFGHIJKLMNOPQRSTUVWXYZ0123456789!@#$%^&*''" for m
    using choices_subset [of "ascii_letters @ digits @ ''!@#$%^&*''" "nat m" g]
    by (simp add: generate_password_def ascii_letters_def digits_def)
  have other: "c \<noteq> PyStr ''high'' \<Longrightarrow> set (fst (generate_password m c g))
        \<subseteq> set ''abcdefghijklmnopqrstuvwxyzABCDEFGHIJKLMNOPQRSTUVWXYZ0123456789''" for m c
    using choices_subset [of "ascii_letters @ digits" "nat m" g]
    by (simp add: generate_password_def ascii_letters_def digits_def)
  show ?thesis
    using assms len [of n complexity] len [of 16 "PyStr ''high''"] high [of n] high [of 16]
      other [of complexity n]
    by (cases "complexity = PyStr ''high''") simp_all
qed

theorem generate_password_length_alphabet_witness:
  "(0::int) \<le> 3 \<and> fst (generate_password 3 (PyStr ''high'') (sconst 61)) = ''999''
   \<and> int (length (fst (generate_password 3 (PyStr ''high'') (sconst 61)))) = 3
   \<and> set (fst (generate_password 3 (PyStr ''high'') (sconst 61)))
        \<subseteq> set ''abcdefghijklmnopqrstuvwxyzABCDEFGHIJKLMNOPQRSTUVWXYZ0123456789!@#$%^&*''"
  using generate_password_length_alphabet [of 3 "PyStr ''high''" "sconst 61"]
  by (simp add: generate_password_def choice_def randbelow_def choices_numeral
                ascii_letters_def digits_def)

text \<open>
  C1. One run of \<open>main\<close> yields the seven plaintext secrets \<open>mysql_root\<close>,
  \<open>postgres\<close>, \<open>adminer\<close>, \<open>laravel_db\<close>, \<open>app_key\<close>, \<open>jwt_secret\<close>,
  \<open>backup_key\<close> and one hash, derived from the \<open>adminer\<close> secret. In the rendered
  text, \<open>vault_laravel_db_password\<close> and the \<open>password\<close> of the single database
  user are the \<open>laravel_db\<close> secret, the admin user is \<open>dbadmin\<close>, the database user
  is \<open>laravel_user\<close> with the fixed privileges, and \<open>app_key\<close> starts with
  \<open>base64:\<close>. The hash is read back from the text as one line, which needs the C
  library's \<open>crypt\<close> to return no newline.
\<close>

theorem main_builds_bundle:
  assumes crypt_line: "\<And>p s. CHR 0x0A \<notin> set (crypt p s)"
  shows "\<exists>b laravel_db adminer salt token.
      main crypt g answer = Some b
    \<and> map fst (passwords b) = [''mysql_root'', ''postgres'', ''adminer'', ''laravel_db'',
                                ''app_key'', ''jwt_secret'', ''backup_key'']
    \<and> getitem (passwords b) ''adminer'' = Some adminer
    \<and> adminer_hash b = crypt adminer salt
    \<and> doc_values ''vault_adminer_password_hash'' (vault_content b) = [adminer_hash b]
    \<and> getitem (passwords b) ''laravel_db'' = Some laravel_db
    \<and> doc_values ''vault_laravel_db_password'' (vault_content b) = [laravel_db]
    \<and> doc_values ''password'' (vault_content b) = [laravel_db]
    \<and> doc_values ''vault_adminer_user'' (vault_content b) = [''dbadmin'']
    \<and> doc_values ''name'' (vault_content b) = [''laravel_user'']
    \<and> doc_values ''privileges'' (vault_content b)
        = [''SELECT,INSERT,UPDATE,DELETE,CREATE,ALTER,INDEX,DROP'']
    \<and> getitem (passwords b) ''app_key'' = Some (''base64:'' @ token)
    \<and> doc_values ''vault_app_key'' (vault_content b) = [''base64:'' @ token]"
proof -
  obtain mysql_root g1 where 1: "generate_password 20 (PyStr ''high'') g = (mysql_root, g1)"
    by (cases "generate_password 20 (PyStr ''high'') g")
  obtain postgres g2 where 2: "generate_password 20 (PyStr ''high'') g1 = (postgres, g2)"
    by (cases "generate_password 20 (PyStr ''high'') g1")
  obtain adminer g3 where 3: "generate_password 16 (PyStr ''medium'') g2 = (adminer, g3)"
    by (cases "generate_password 16 (PyStr ''medium'') g2")
  obtain laravel_db g4 where 4: "generate_password 16 (PyStr ''medium'') g3 = (laravel_db, g4)"
    by (cases "generate_password 16 (PyStr ''medium'') g3")
  obtain token g5 where 5: "token_urlsafe 32 g4 = (token, g5)"
    by (cases "token_urlsafe 32 g4")
  obtain jwt_secret g6 where 6: "token_urlsafe 64 g5 = (jwt_secret, g6)"
    by (cases "token_urlsafe 64 g5")
  obtain backup_key g7 where 7: "token_urlsafe 32 g6 = (backup_key, g7)"
    by (cases "token_urlsafe 32 g6")
  obtain salt g8 where 8: "mksalt g7 = (salt, g8)"
    by (cases "mksalt g7")
  define h where "h = crypt adminer salt"
  define ls where "ls =
         [''---'',
          ''# Encrypted vault file - create with: ansible-vault create group_vars/vault.yml'',
          [],
          ''vault_mysql_root_password: '' @ quoted mysql_root,
          ''vault_postgres_password: '' @ quoted postgres,
          ''vault_adminer_password: '' @ quoted adminer,
          ''vault_adminer_password_hash: '' @ quoted h,
          ''vault_laravel_db_password: '' @ quoted laravel_db,
          ''vault_app_key: '' @ quoted (''base64:'' @ token),
          ''vault_jwt_secret: '' @ quoted jwt_secret,
          ''vault_backup_encryption_key: '' @ quoted backup_key,
          [],
          ''vault_adminer_user: '' @ quoted ''dbadmin'',
          [],
          ''vault_db_users:'',
          ''  - name: '' @ quoted ''laravel_user'',
          ''    password: '' @ quoted laravel_db,
          ''    privileges: '' @ quoted ''SELECT,INSERT,UPDATE,DELETE,CREATE,ALTER,INDEX,DROP'']"
  define b where "b = \<lparr> passwords = [(''mysql_root'', mysql_root), (''postgres'', postgres),
                (''adminer'', adminer), (''laravel_db'', laravel_db),
                (''app_key'', ''base64:'' @ token), (''jwt_secret'', jwt_secret),
                (''backup_key'', backup_key)],
               adminer_hash = h, vault_content = text_of_lines ls,
               saved_file = (if map lower_char answer = ''y'' then Some (text_of_lines ls) else None) \<rparr>"
  have m: "main crypt g answer = Some b"
    by (simp add: main_def 1 2 3 4 5 6 7 8 hash_password_def getitem_def vault_template_def
                  b_def ls_def h_def)
  have nl: "CHR 0x0A \<notin> set mysql_root" "CHR 0x0A \<notin> set postgres" "CHR 0x0A \<notin> set adminer"
    "CHR 0x0A \<notin> set laravel_db" "CHR 0x0A \<notin> set token" "CHR 0x0A \<notin> set jwt_secret"
    "CHR 0x0A \<notin> set backup_key" "CHR 0x0A \<notin> set h"
    using generate_password_no_newline [of 20 "PyStr ''high''" g]
      generate_password_no_newline [of 20 "PyStr ''high''" g1]
      generate_password_no_newline [of 16 "PyStr ''medium''" g2]
      generate_password_no_newline [of 16 "PyStr ''medium''" g3]
      token_urlsafe_no_newline [of 32 g4] token_urlsafe_no_newline [of 64 g5]
      token_urlsafe_no_newline [of 32 g6] crypt_line [of adminer salt]
    by (simp_all add: 1 2 3 4 5 6 7 h_def)
  have "\<forall>l \<in> set ls. CHR 0x0A \<notin> set l"
    using nl by (simp add: ls_def quoted_def)
  then have lines: "lines_of (vault_content b) = ls"
    by (simp add: b_def lines_of_text_of_lines)
  have dv: "doc_values key (vault_content b) = List.map_filter (field_value key) ls" for key
    by (simp add: doc_values_def lines)
  have d1: "doc_values ''vault_adminer_password_hash'' (vault_content b) = [h]"
    unfolding dv ls_def by (simp add: field_value_def quoted_def map_filter_simps)
  have d2: "doc_values ''vault_laravel_db_password'' (vault_content b) = [laravel_db]"
    unfolding dv ls_def by (simp add: field_value_def quoted_def map_filter_simps)
  have d3: "doc_values ''password'' (vault_content b) = [laravel_db]"
    unfolding dv ls_def by (simp add: field_value_def quoted_def map_filter_simps)
  have d4: "doc_values ''vault_adminer_user'' (vault_content b) = [''dbadmin'']"
    unfolding dv ls_def by (simp add: field_value_def quoted_def map_filter_simps)
  have d5: "doc_values ''name'' (vault_content b) = [''laravel_user'']"
    unfolding dv ls_def by (simp add: field_value_def quoted_def map_filter_simps)
  have d6: "doc_values ''privileges'' (vault_content b)
        = [''SELECT,INSERT,UPDATE,DELETE,CREATE,ALTER,INDEX,DROP'']"
    unfolding dv ls_def by (simp add: field_value_def quoted_def map_filter_simps)
  have d7: "doc_values ''vault_app_key'' (vault_content b) = [''base64:'' @ token]"
    unfolding dv ls_def by (simp add: field_value_def quoted_def map_filter_simps)
  have p: "map fst (passwords b) = [''mysql_root'', ''postgres'', ''adminer'', ''laravel_db'',
                                ''app_key'', ''jwt_secret'', ''backup_key'']"
    "getitem (passwords b) ''adminer'' = Some adminer"
    "getitem (passwords b) ''laravel_db'' = Some laravel_db"
    "getitem (passwords b) ''app_key'' = Some (''base64:'' @ token)"
    "adminer_hash b = crypt adminer salt"
    by (simp_all add: b_def getitem_def h_def)
  show ?thesis
    by (rule exI [of _ b], rule exI [of _ laravel_db], rule exI [of _ adminer],
        rule exI [of _ salt], rule exI [of _ token])
       (simp only: m p d1 d2 d3 d4 d5 d6 d7 h_def simp_thms)
qed

text \<open>
  A run on the stream 0, 3, 6, ... with a stand-in for \<open>crypt\<close> that keeps the
  alphanumerics of salt and password.
\<close>

lemma stake_numeral: "stake (numeral v) s = shd s # stake (pred_numeral v) (stl s)"
  by (simp add: numeral_eq_Suc)
lemma sdrop_numeral: "sdrop (numeral v) s = sdrop (pred_numeral v) (stl s)"
  by (simp add: numeral_eq_Suc)
lemmas gen_eval = generate_password_def choice_def randbelow_def choices_numeral
  ascii_letters_def digits_def token_urlsafe_def token_bytes_def stake_numeral sdrop_numeral
  rstrip_eq_def b64_alphabet_def mksalt_def hash_password_def

lemma example_draws:
  "generate_password 20 (PyStr ''high'') (siterate (\<lambda>x. x + 3) 0)
     = (''adgjmpsvyBEHKNQTWZ25'', siterate (\<lambda>x. x + 3) 60)"
  "generate_password 20 (PyStr ''high'') (siterate (\<lambda>x. x + 3) 60)
     = (''8@%*cfiloruxADGJMPSV'', siterate (\<lambda>x. x + 3) 120)"
  "generate_password 16 (PyStr ''medium'') (siterate (\<lambda>x. x + 3) 120)
     = (''69cfiloruxADGJMP'', siterate (\<lambda>x. x + 3) 168)"
  "generate_password 16 (PyStr ''medium'') (siterate (\<lambda>x. x + 3) 168)
     = (''SVY147adgjmpsvyB'', siterate (\<lambda>x. x + 3) 216)"
  "token_urlsafe 32 (siterate (\<lambda>x. x + 3) 216)
     = (''2Nve4eTn6u3w8_b5_P8CBQgLDhEUFxodICMmKSwvMjU'', siterate (\<lambda>x. x + 3) 312)"
  "token_urlsafe 64 (siterate (\<lambda>x. x + 3) 312)
     = (''ODs-QURHSk1QU1ZZXF9iZWhrbnF0d3p9gIOGiYyPkpWYm56hpKeqrbCztrm8v8LFyMvO0dTX2t3g4-bp7O_y9Q'',
        siterate (\<lambda>x. x + 3) 504)"
  "token_urlsafe 32 (siterate (\<lambda>x. x + 3) 504)
     = (''-Pv-AQQHCg0QExYZHB8iJSgrLjE0Nzo9QENGSUxPUlU'', siterate (\<lambda>x. x + 3) 600)"
  "mksalt (siterate (\<lambda>x. x + 3) 600) = (''$6$yBEHKNQTWZ258/cf'', siterate (\<lambda>x. x + 3) 648)"
  by (simp_all add: gen_eval del: stake_siterate sdrop_siterate)

lemma example_run:
  "map_option (\<lambda>b. (passwords b, adminer_hash b))
     (main (\<lambda>p s. filter alnum (s @ p)) (siterate (\<lambda>x. x + 3) 0) ''y'')
   = Some ([(''mysql_root'', ''adgjmpsvyBEHKNQTWZ25''), (''postgres'', ''8@%*cfiloruxADGJMPSV''),
            (''adminer'', ''69cfiloruxADGJMP''), (''laravel_db'', ''SVY147adgjmpsvyB''),
            (''app_key'', ''base64:2Nve4eTn6u3w8_b5_P8CBQgLDhEUFxodICMmKSwvMjU''),
            (''jwt_secret'', ''ODs-QURHSk1QU1ZZXF9iZWhrbnF0d3p9gIOGiYyPkpWYm56hpKeqrbCztrm8v8LFyMvO0dTX2t3g4-bp7O_y9Q''),
            (''backup_key'', ''-Pv-AQQHCg0QExYZHB8iJSgrLjE0Nzo9QENGSUxPUlU'')],
           ''6yBEHKNQTWZ258cf69cfiloruxADGJMP'')"
  by (simp add: main_def example_draws hash_password_def getitem_def vault_template_def
      alnum_def lower_def upper_def is_digit_def in_range_def code_of_def)

theorem main_builds_bundle_witness:
  "(\<forall>p s. CHR 0x0A \<notin> set (filter alnum (s @ p)))
   \<and> (\<exists>b. main (\<lambda>p s. filter alnum (s @ p)) (siterate (\<lambda>x. x + 3) 0) ''y'' = Some b
          \<and> length (passwords b) = 7
          \<and> doc_values ''vault_laravel_db_password'' (vault_content b) = [''SVY147adgjmpsvyB'']
          \<and> doc_values ''password'' (vault_content b) = [''SVY147adgjmpsvyB'']
          \<and> doc_values ''vault_adminer_password_hash'' (vault_content b)
              = [''6yBEHKNQTWZ258cf69cfiloruxADGJMP''])"
proof -
  have h: "CHR 0x0A \<notin> set (filter alnum (s @ p))" for p s
    by (simp add: alnum_def lower_def upper_def is_digit_def in_range_def code_of_def)
  from main_builds_bundle [of "\<lambda>p s. filter alnum (s @ p)" "siterate (\<lambda>x. x + 3) 0" "''y''", OF h]
  obtain b laravel_db where b: "main (\<lambda>p s. filter alnum (s @ p)) (siterate (\<lambda>x. x + 3) 0) ''y'' = Some b"
    and l: "getitem (passwords b) ''laravel_db'' = Some laravel_db"
    and d: "doc_values ''vault_laravel_db_password'' (vault_content b) = [laravel_db]"
           "doc_values ''password'' (vault_content b) = [laravel_db]"
           "doc_values ''vault_adminer_password_hash'' (vault_content b) = [adminer_hash b]"
    by (elim exE conjE)
  from example_run have pa: "passwords b =
      [(''mysql_root'', ''adgjmpsvyBEHKNQTWZ25''), (''postgres'', ''8@%*cfiloruxADGJMPSV''),
       (''adminer'', ''69cfiloruxADGJMP''), (''laravel_db'', ''SVY147adgjmpsvyB''),
       (''app_key'', ''base64:2Nve4eTn6u3w8_b5_P8CBQgLDhEUFxodICMmKSwvMjU''),
       (''jwt_secret'', ''ODs-QURHSk1QU1ZZXF9iZWhrbnF0d3p9gIOGiYyPkpWYm56hpKeqrbCztrm8v8LFyMvO0dTX2t3g4-bp7O_y9Q''),
       (''backup_key'', ''-Pv-AQQHCg0QExYZHB8iJSgrLjE0Nzo9QENGSUxPUlU'')]
      \<and> adminer_hash b = ''6yBEHKNQTWZ258cf69cfiloruxADGJMP''"
    unfolding b option.map prod.inject option.inject .
  then have p: "passwords b =
      [(''mysql_root'', ''adgjmpsvyBEHKNQTWZ25''), (''postgres'', ''8@%*cfiloruxADGJMPSV''),
       (''adminer'', ''69cfiloruxADGJMP''), (''laravel_db'', ''SVY147adgjmpsvyB''),
       (''app_key'', ''base64:2Nve4eTn6u3w8_b5_P8CBQgLDhEUFxodICMmKSwvMjU''),
       (''jwt_secret'', ''ODs-QURHSk1QU1ZZXF9iZWhrbnF0d3p9gIOGiYyPkpWYm56hpKeqrbCztrm8v8LFyMvO0dTX2t3g4-bp7O_y9Q''),
       (''backup_key'', ''-Pv-AQQHCg0QExYZHB8iJSgrLjE0Nzo9QENGSUxPUlU'')]"
    by (rule conjunct1)
  from pa have a: "adminer_hash b = ''6yBEHKNQTWZ258cf69cfiloruxADGJMP''"
    by (rule conjunct2)
  from l have e: "laravel_db = ''SVY147adgjmpsvyB''" unfolding p getitem_def by simp
  from p have n: "length (passwords b) = 7" by simp
  from d(3) a have dh: "doc_values ''vault_adminer_password_hash'' (vault_content b)
              = [''6yBEHKNQTWZ258cf69cfiloruxADGJMP'']"
    by (simp only:)
  from d(1) e have d1: "doc_values ''vault_laravel_db_password'' (vault_content b) = [''SVY147adgjmpsvyB'']"
    by (simp only:)
  from d(2) e have d2: "doc_values ''password'' (vault_content b) = [''SVY147adgjmpsvyB'']"
    by (simp only:)
  from b n d1 d2 dh have "\<exists>b. main (\<lambda>p s. filter alnum (s @ p)) (siterate (\<lambda>x. x + 3) 0) ''y'' = Some b
          \<and> length (passwords b) = 7
          \<and> doc_values ''vault_laravel_db_password'' (vault_content b) = [''SVY147adgjmpsvyB'']
          \<and> doc_values ''password'' (vault_content b) = [''SVY147adgjmpsvyB'']
          \<and> doc_values ''vault_adminer_password_hash'' (vault_content b)
              = [''6yBEHKNQTWZ258cf69cfiloruxADGJMP'']"
    by (intro exI conjI)
  with h show ?thesis by (intro conjI allI)
qed

end
